theory Spec2Isabelle
  imports Main
begin

section \<open>JavaScript values\<close>

text \<open>
  The values that flow through \<open>tester-cli.ts\<close>: what \<open>JSON.parse\<close> returns, what
  \<open>minimist\<close> puts into its argument record, and \<open>undefined\<close> for an absent property.
  Numbers are only ever copied by the driver, never computed with, so they are kept as
  integers. An object is an association list in insertion order with \<open>map_of\<close> as the
  property read.
\<close>

datatype val =
    Undef
  | Null
  | Bool bool
  | Num int
  | Str string
  | Arr "val list"
  | Obj "(string \<times> val) list"

text \<open>JavaScript truthiness, as used by \<open>if (x)\<close>, \<open>!x\<close> and \<open>c ? a : b\<close>.\<close>

fun truthy :: "val \<Rightarrow> bool" where
  "truthy Undef = False"
| "truthy Null = False"
| "truthy (Bool b) = b"
| "truthy (Num n) = (n \<noteq> 0)"
| "truthy (Str s) = (s \<noteq> [])"
| "truthy (Arr xs) = True"
| "truthy (Obj fs) = True"

datatype error =
    LoadError val
  | ParseError string
  | TypeError string
  | ExecutionError string

section \<open>The test pattern resolver\<close>

subsection \<open>\<open>path.extname\<close> (POSIX)\<close>

text \<open>
  \<open>extname\<close> is Node's, not this repository's. It scans the path from its last character
  to its first with five variables; the record below holds them, \<open>None\<close> standing for the
  initial \<open>-1\<close> of \<open>startDot\<close> and \<open>end\<close>.
\<close>

record extname_state =
  startDot :: "nat option"
  startPart :: nat
  endPos :: "nat option"
  matchedSlash :: bool
  preDotState :: int

definition extname_init :: extname_state where
  "extname_init =
     \<lparr>startDot = None, startPart = 0, endPos = None, matchedSlash = True, preDotState = 0\<rparr>"

text \<open>
  \<open>extname_loop path n st\<close> runs the iterations \<open>i = n - 1\<close> down to \<open>0\<close>; the
  \<open>break\<close> at the separator that ends the last path component returns at once.
\<close>

fun extname_loop :: "string \<Rightarrow> nat \<Rightarrow> extname_state \<Rightarrow> extname_state" where
  "extname_loop path 0 st = st"
| "extname_loop path (Suc i) st =
     (let code = path ! i in
      if code = CHR ''/'' then
        (if \<not> matchedSlash st then st\<lparr>startPart := i + 1\<rparr>
         else extname_loop path i st)
      else
        (let st1 = (if endPos st = None
                    then st\<lparr>matchedSlash := False, endPos := Some (i + 1)\<rparr> else st);
             st2 = (if code = CHR ''.'' then
                      (if startDot st1 = None then st1\<lparr>startDot := Some i\<rparr>
                       else if preDotState st1 \<noteq> 1 then st1\<lparr>preDotState := 1\<rparr>
                       else st1)
                    else if startDot st1 \<noteq> None then st1\<lparr>preDotState := - 1\<rparr>
                    else st1)
         in extname_loop path i st2))"

definition extname :: "string \<Rightarrow> string" where
  "extname path =
     (let st = extname_loop path (length path) extname_init in
      case (startDot st, endPos st) of
        (Some sd, Some e) \<Rightarrow>
          if preDotState st = 0
             \<or> (preDotState st = 1 \<and> sd + 1 = e \<and> sd = startPart st + 1)
          then []
          else take (e - sd) (drop sd path)
      | _ \<Rightarrow> [])"

subsection \<open>\<open>String.prototype.lastIndexOf\<close>\<close>

fun lastIndexOf_from :: "string \<Rightarrow> char \<Rightarrow> nat \<Rightarrow> int" where
  "lastIndexOf_from s c 0 = - 1"
| "lastIndexOf_from s c (Suc i) = (if s ! i = c then int i else lastIndexOf_from s c i)"

definition lastIndexOf :: "string \<Rightarrow> char \<Rightarrow> int" where
  "lastIndexOf s c = lastIndexOf_from s c (length s)"

subsection \<open>\<open>getTestPattern\<close>\<close>

text \<open>
  The argument is \<open>path[0]\<close> of the parsed command line: \<open>undefined\<close>, a string, or a
  number where the argument looked like one. \<open>extname\<close> throws a \<open>TypeError\<close> on anything
  but a string; template literals and \<open>lastIndexOf\<close> are reached with a string only.
\<close>

definition suffixPattern :: string where
  "suffixPattern = ''**/*.test.script''"

definition getTestPattern :: "val \<Rightarrow> error + string" where
  "getTestPattern pattern =
     (if truthy pattern then
        (case pattern of
           Str p \<Rightarrow>
             (let ext = extname p in
              if ext \<noteq> [] then Inr (p @ ''*'')
              else if lastIndexOf p CHR ''/'' = int (length p) - 1
                   then Inr (p @ suffixPattern)
                   else Inr (p @ ''/'' @ suffixPattern))
         | _ \<Rightarrow> Inl (TypeError ''The \"path\" argument must be of type string''))
      else Inr ''**/*.test.script'')"

section \<open>lodash \<open>merge\<close> and \<open>mergeWith\<close>\<close>

text \<open>
  lodash is a library, not part of this repository; the functions below follow its
  \<open>baseMerge\<close>, \<open>baseMergeDeep\<close> and \<open>assignMergeValue\<close> on the values of type
  \<^typ>\<open>val\<close>. A merge returns the new value of the destination. One situation has no
  representation in \<^typ>\<open>val\<close>: merging the keys of a plain object into an existing
  array, which in JavaScript attaches named properties to the array (or assigns its
  \<open>length\<close>). The model returns \<open>None\<close> there.
\<close>

type_synonym fields = "(string \<times> val) list"

definition get :: "fields \<Rightarrow> string \<Rightarrow> val" where
  "get fs k = (case map_of fs k of None \<Rightarrow> Undef | Some v \<Rightarrow> v)"

text \<open>\<open>object[key] = value\<close>: an existing property keeps its place, a new one goes last.\<close>

fun upd :: "string \<Rightarrow> val \<Rightarrow> fields \<Rightarrow> fields" where
  "upd k v [] = [(k, v)]"
| "upd k v ((k', v') # fs) = (if k = k' then (k, v) # fs else (k', v') # upd k v fs)"

definition isArray :: "val \<Rightarrow> bool" where
  "isArray v = (case v of Arr xs \<Rightarrow> True | _ \<Rightarrow> False)"

definition isObject :: "val \<Rightarrow> bool" where
  "isObject v = (case v of Arr xs \<Rightarrow> True | Obj fs \<Rightarrow> True | _ \<Rightarrow> False)"

definition digit_char :: "nat \<Rightarrow> char" where
  "digit_char d = ''0123456789'' ! d"

function show_nat :: "nat \<Rightarrow> string" where
  "show_nat n = (if n < 10 then [digit_char n] else show_nat (n div 10) @ [digit_char (n mod 10)])"
  by pat_completeness auto
termination
  by (relation "measure (\<lambda>n. n)") auto

declare show_nat.simps [simp del]

text \<open>
  \<open>isArrayLikeObject\<close> on a non-array: an object whose \<open>length\<close> is a valid length;
  \<open>copyArray\<close> then reads its properties \<open>0 .. length - 1\<close>.
\<close>

definition isArrayLikeObject :: "val \<Rightarrow> bool" where
  "isArrayLikeObject v =
     (case v of
        Obj fs \<Rightarrow> (case get fs ''length'' of
                     Num n \<Rightarrow> 0 \<le> n \<and> n \<le> 9007199254740991
                   | _ \<Rightarrow> False)
      | _ \<Rightarrow> False)"

definition copyArray :: "val \<Rightarrow> val list" where
  "copyArray v =
     (case v of
        Obj fs \<Rightarrow> (case get fs ''length'' of
                     Num n \<Rightarrow> map (\<lambda>i. get fs (show_nat i)) [0..<nat n]
                   | _ \<Rightarrow> [])
      | _ \<Rightarrow> [])"

type_synonym customizer = "val \<Rightarrow> val \<Rightarrow> val"

definition apply_customizer :: "customizer option \<Rightarrow> val \<Rightarrow> val \<Rightarrow> val" where
  "apply_customizer cust objValue srcValue =
     (case cust of None \<Rightarrow> Undef | Some f \<Rightarrow> f objValue srcValue)"

text \<open>
  \<open>merge_val cust objValue srcValue\<close> is the value of \<open>object[key]\<close> after the iteratee
  of \<open>baseMerge\<close> has handled the key whose source value is \<open>srcValue\<close>;
  \<open>merge_fields\<close> is \<open>baseMerge\<close> into an object, \<open>merge_elems\<close> is \<open>baseMerge\<close> of an
  array into an array, index by index.
\<close>

fun merge_val :: "customizer option \<Rightarrow> val \<Rightarrow> val \<Rightarrow> val option"
  and merge_fields :: "customizer option \<Rightarrow> fields \<Rightarrow> fields \<Rightarrow> fields option"
  and merge_elems :: "customizer option \<Rightarrow> val list \<Rightarrow> val list \<Rightarrow> val list option"
where
  "merge_val cust objValue (Arr ss) =
     (let c = apply_customizer cust objValue (Arr ss) in
      if c \<noteq> Undef then Some c
      else (case objValue of
              Arr os \<Rightarrow> map_option Arr (merge_elems cust os ss)
            | _ \<Rightarrow> if isArrayLikeObject objValue
                   then map_option Arr (merge_elems cust (copyArray objValue) ss)
                   else map_option Arr (merge_elems cust [] ss)))"
| "merge_val cust objValue (Obj sf) =
     (let c = apply_customizer cust objValue (Obj sf) in
      if c \<noteq> Undef then Some c
      else (case objValue of
              Obj dfs \<Rightarrow> map_option Obj (merge_fields cust dfs sf)
            | Arr os \<Rightarrow> if sf = [] then Some (Arr os) else None
            | _ \<Rightarrow> map_option Obj (merge_fields cust [] sf)))"
| "merge_val cust objValue srcValue =
     (let c = apply_customizer cust objValue srcValue;
          newValue = (if c = Undef then srcValue else c)
      in Some (if newValue = Undef then objValue else newValue))"
| "merge_fields cust dst [] = Some dst"
| "merge_fields cust dst ((k, s) # rest) =
     (case merge_val cust (get dst k) s of
        None \<Rightarrow> None
      | Some v \<Rightarrow> merge_fields cust (upd k v dst) rest)"
| "merge_elems cust ds [] = Some ds"
| "merge_elems cust [] (s # ss) =
     (case merge_val cust Undef s of
        None \<Rightarrow> None
      | Some v \<Rightarrow> map_option (\<lambda>r. v # r) (merge_elems cust [] ss))"
| "merge_elems cust (d # ds) (s # ss) =
     (case merge_val cust d s of
        None \<Rightarrow> None
      | Some v \<Rightarrow> map_option (\<lambda>r. v # r) (merge_elems cust ds ss))"

text \<open>
  The keys \<open>baseMerge\<close> iterates over when the source is the top-level argument: the
  properties of an object, the indices of an array or of a string, nothing for any other
  primitive.
\<close>

definition source_fields :: "val \<Rightarrow> fields" where
  "source_fields src =
     (case src of
        Obj fs \<Rightarrow> fs
      | Arr xs \<Rightarrow> zip (map show_nat [0..<length xs]) xs
      | Str s \<Rightarrow> zip (map show_nat [0..<length s]) (map (\<lambda>c. Str [c]) s)
      | _ \<Rightarrow> [])"

text \<open>\<open>createAssigner\<close> skips a source that is falsy.\<close>

definition assign_source :: "customizer option \<Rightarrow> fields \<Rightarrow> val \<Rightarrow> fields option" where
  "assign_source cust dst src =
     (if truthy src then merge_fields cust dst (source_fields src) else Some dst)"

definition mergeWith :: "fields \<Rightarrow> val \<Rightarrow> val \<Rightarrow> customizer \<Rightarrow> fields option" where
  "mergeWith object source1 source2 cust =
     (case assign_source (Some cust) object source1 of
        None \<Rightarrow> None
      | Some object1 \<Rightarrow> assign_source (Some cust) object1 source2)"

text \<open>\<open>Array.prototype.concat\<close> with one argument: an array is spread, anything else is appended.\<close>

definition js_concat :: "val list \<Rightarrow> val \<Rightarrow> val list" where
  "js_concat xs v = (case v of Arr ys \<Rightarrow> xs @ ys | _ \<Rightarrow> xs @ [v])"

text \<open>The customizer of \<open>main\<close> (lines 131-135).\<close>

definition concat_customizer :: customizer where
  "concat_customizer objValue srcValue =
     (if isArray objValue
      then (case objValue of Arr xs \<Rightarrow> Arr (js_concat xs srcValue) | _ \<Rightarrow> Undef)
      else Undef)"

section \<open>Objects shared between variables\<close>

text \<open>
  \<open>const config = { ...defaultConfig }\<close> copies the four properties of \<open>defaultConfig\<close>
  and not the objects they refer to, and \<open>sources: config.sources\<close> stores one more
  reference to the last of them. These four objects live in a store; a property of a
  top-level object (\<open>defaultConfig\<close>, \<open>config\<close>, \<open>bundlerConfig\<close>) either owns its value
  or refers to a store cell. Everything below a store cell or an owned value is reachable
  through that one property only (the literal and \<open>JSON.parse\<close> build trees, and lodash
  puts only fresh objects into its destination), so it is kept as a value.
\<close>

type_synonym addr = nat

datatype slot = Own val | Shared addr

type_synonym tobj = "(string \<times> slot) list"

type_synonym store = "addr \<Rightarrow> val"

definition resolve :: "store \<Rightarrow> slot \<Rightarrow> val" where
  "resolve st s = (case s of Own v \<Rightarrow> v | Shared a \<Rightarrow> st a)"

definition tget :: "store \<Rightarrow> tobj \<Rightarrow> string \<Rightarrow> val" where
  "tget st obj k = (case map_of obj k of None \<Rightarrow> Undef | Some s \<Rightarrow> resolve st s)"

fun tupd :: "string \<Rightarrow> slot \<Rightarrow> tobj \<Rightarrow> tobj" where
  "tupd k v [] = [(k, v)]"
| "tupd k v ((k', v') # fs) = (if k = k' then (k, v) # fs else (k', v') # tupd k v fs)"

definition snapshot :: "store \<Rightarrow> tobj \<Rightarrow> fields" where
  "snapshot st obj = map (\<lambda>(k, s). (k, resolve st s)) obj"

datatype failure = Thrown error | Unmodelled

definition bindF :: "failure + 'a \<Rightarrow> ('a \<Rightarrow> failure + 'b) \<Rightarrow> failure + 'b" where
  "bindF x f = (case x of Inl e \<Rightarrow> Inl e | Inr v \<Rightarrow> f v)"

text \<open>
  \<open>x.k\<close> for the property names the driver uses (none of them an index, \<open>length\<close> or a
  method of a primitive's prototype): reading from \<open>undefined\<close> or \<open>null\<close> throws.
\<close>

definition get_prop :: "val \<Rightarrow> string \<Rightarrow> failure + val" where
  "get_prop v k =
     (case v of
        Undef \<Rightarrow> Inl (Thrown (TypeError (''Cannot read properties of undefined (reading '' @ k @ '')'')))
      | Null \<Rightarrow> Inl (Thrown (TypeError (''Cannot read properties of null (reading '' @ k @ '')'')))
      | Obj fs \<Rightarrow> Inr (get fs k)
      | _ \<Rightarrow> Inr Undef)"

text \<open>
  \<open>x.k = v\<close> in a module (strict mode): a primitive target throws; an array target would
  get a named property, which \<^typ>\<open>val\<close> cannot hold.
\<close>

definition set_prop :: "val \<Rightarrow> string \<Rightarrow> val \<Rightarrow> failure + val" where
  "set_prop v k x =
     (case v of
        Obj fs \<Rightarrow> Inr (Obj (upd k x fs))
      | Arr xs \<Rightarrow> Inl Unmodelled
      | _ \<Rightarrow> Inl (Thrown (TypeError (''Cannot create property '' @ k))))"

section \<open>The default configuration\<close>

definition controller_addr :: addr where "controller_addr = 0"
definition testServer_addr :: addr where "testServer_addr = 1"
definition mocks_addr :: addr where "mocks_addr = 2"
definition sources_addr :: addr where "sources_addr = 3"

definition default_controller :: val where
  "default_controller =
     Obj [(''host'', Str ''localhost''),
          (''ports'', Obj [(''primary'', Num 30001)]),
          (''autoLaunch'', Obj [(''disabled'', Bool False),
                                (''version'', Str ''5.3.1''),
                                (''stop'', Bool False)])]"

definition default_testServer :: val where
  "default_testServer =
     Obj [(''host'', Str ''autodiscover''),
          (''port'', Num 24493),
          (''defaultExecutionTimeout'', Num 10000)]"

definition default_mocks :: val where
  "default_mocks =
     Obj [(''include'', Arr [Str ''__mocks__/**/*.mock.script'']),
          (''exclude'', Arr [])]"

definition default_sources :: val where
  "default_sources =
     Obj [(''global'', Obj [(''scripts'', Obj [(''include'', Arr []), (''exclude'', Arr [])])])]"

definition initial_store :: store where
  "initial_store =
     (\<lambda>a. if a = controller_addr then default_controller
          else if a = testServer_addr then default_testServer
          else if a = mocks_addr then default_mocks
          else if a = sources_addr then default_sources
          else Undef)"

definition defaultConfig :: tobj where
  "defaultConfig =
     [(''controller'', Shared controller_addr),
      (''testServer'', Shared testServer_addr),
      (''mocks'', Shared mocks_addr),
      (''sources'', Shared sources_addr)]"

section \<open>The driver\<close>

subsection \<open>Bundle configuration derivation (lines 101-116)\<close>

text \<open>The value of the property read \<open>config.sources\<close>, as the reference it is.\<close>

definition read_slot :: "tobj \<Rightarrow> string \<Rightarrow> slot" where
  "read_slot obj k = (case map_of obj k of None \<Rightarrow> Own Undef | Some s \<Rightarrow> s)"

definition synthesized_bundlerConfig :: "tobj \<Rightarrow> tobj" where
  "synthesized_bundlerConfig config =
     [(''sources'', read_slot config ''sources''),
      (''options'', Own (Obj [(''bundleKey'', Str ''test-harness''),
                              (''bundleOutputFile'', Str ''default''),
                              (''outputDir'', Str ''.urscript-test''),
                              (''scriptSuffix'', Str ''script''),
                              (''writeToDisk'', Bool True)]))]"

text \<open>Lines 114-116: \<open>if (!bundlerConfig.sources) bundlerConfig.sources = {}\<close>.\<close>

definition ensure_sources :: "store \<Rightarrow> tobj \<Rightarrow> tobj" where
  "ensure_sources st b =
     (if \<not> truthy (tget st b ''sources'') then tupd ''sources'' (Own (Obj [])) b else b)"

text \<open>
  The own enumerable properties of a freshly parsed object or array. An array is an
  object whose properties are its indices; the driver reads and writes only the named
  property \<open>sources\<close> of \<open>bundlerConfig\<close>, so a parsed array is kept as this property
  list, and that it is an array is recorded apart (\<open>bundle_is_array\<close> below).
\<close>

definition own_properties :: "val \<Rightarrow> tobj" where
  "own_properties b =
     (case b of
        Obj fs \<Rightarrow> map (\<lambda>(k, v). (k, Own v)) fs
      | Arr xs \<Rightarrow> map (\<lambda>(k, v). (k, Own v)) (zip (map show_nat [0..<length xs]) xs)
      | _ \<Rightarrow> [])"

text \<open>
  The parsed bundle file is whatever JSON it holds: \<open>null\<close> fails at the read of
  \<open>.sources\<close>, any other primitive at the assignment to it; an object or an array
  goes on, an array with \<open>sources\<close> attached to it as a named property.
\<close>

definition parsed_bundlerConfig :: "store \<Rightarrow> val \<Rightarrow> failure + tobj" where
  "parsed_bundlerConfig st b =
     (case b of
        Obj fs \<Rightarrow> Inr (ensure_sources st (own_properties b))
      | Arr xs \<Rightarrow> Inr (ensure_sources st (own_properties b))
      | Null \<Rightarrow> Inl (Thrown (TypeError ''Cannot read properties of null (reading sources)''))
      | Undef \<Rightarrow> Inl (Thrown (TypeError ''Cannot read properties of undefined (reading sources)''))
      | _ \<Rightarrow> Inl (Thrown (TypeError ''Cannot create property sources'')))"

definition derive_bundlerConfig ::
  "(string \<Rightarrow> error + val) \<Rightarrow> store \<Rightarrow> tobj \<Rightarrow> string option \<Rightarrow> failure + tobj" where
  "derive_bundlerConfig parse st config bundleContents =
     (case bundleContents of
        None \<Rightarrow> Inr (ensure_sources st (synthesized_bundlerConfig config))
      | Some text \<Rightarrow>
          if text = [] then Inr (ensure_sources st (synthesized_bundlerConfig config))
          else (case parse text of
                  Inl e \<Rightarrow> Inl (Thrown e)
                | Inr b \<Rightarrow> parsed_bundlerConfig st b))"

text \<open>Whether the object \<open>bundlerConfig\<close> refers to is the array a bundle file parsed to.\<close>

definition bundle_is_array :: "(string \<Rightarrow> error + val) \<Rightarrow> string option \<Rightarrow> bool" where
  "bundle_is_array parse bundleContents =
     (case bundleContents of
        None \<Rightarrow> False
      | Some text \<Rightarrow>
          text \<noteq> [] \<and> (case parse text of Inl e \<Rightarrow> False | Inr b \<Rightarrow> isArray b))"

text \<open>The \<open>sources\<close> of the derived bundler configuration of a run, \<open>undefined\<close> if the derivation throws.\<close>

definition derived_sources :: "(string \<Rightarrow> error + val) \<Rightarrow> string option \<Rightarrow> val" where
  "derived_sources parse bundleContents =
     (case derive_bundlerConfig parse initial_store defaultConfig bundleContents of
        Inl f \<Rightarrow> Undef
      | Inr b \<Rightarrow> tget initial_store b ''sources'')"

subsection \<open>\<open>merge(config, userConfig)\<close> (line 118)\<close>

text \<open>
  \<open>baseMergeDeep\<close> keeps the destination's own object (\<open>newValue = objValue\<close>) when an
  array meets an array or a plain object meets an object; the merge then changes that
  object where it is, for every variable that refers to it.
\<close>

definition in_place :: "val \<Rightarrow> val \<Rightarrow> bool" where
  "in_place objValue srcValue =
     (case srcValue of
        Arr ss \<Rightarrow> isArray objValue
      | Obj sf \<Rightarrow> isObject objValue
      | Undef \<Rightarrow> True
      | _ \<Rightarrow> False)"

fun merge_top :: "store \<Rightarrow> tobj \<Rightarrow> fields \<Rightarrow> (store \<times> tobj) option" where
  "merge_top st obj [] = Some (st, obj)"
| "merge_top st obj ((k, s) # rest) =
     (case merge_val None (tget st obj k) s of
        None \<Rightarrow> None
      | Some v \<Rightarrow>
          (case map_of obj k of
             Some (Shared a) \<Rightarrow>
               if in_place (st a) s then merge_top (st(a := v)) obj rest
               else merge_top st (tupd k (Own v) obj) rest
           | _ \<Rightarrow> merge_top st (tupd k (Own v) obj) rest))"

definition lodash_merge :: "store \<Rightarrow> tobj \<Rightarrow> val \<Rightarrow> failure + store \<times> tobj" where
  "lodash_merge st obj src =
     (if truthy src
      then (case merge_top st obj (source_fields src) of
              None \<Rightarrow> Inl Unmodelled
            | Some r \<Rightarrow> Inr r)
      else Inr (st, obj))"

subsection \<open>The source-set merge (lines 124-138)\<close>

definition assign_slot :: "store \<Rightarrow> tobj \<Rightarrow> string \<Rightarrow> string \<Rightarrow> val \<Rightarrow> failure + store \<times> tobj" where
  "assign_slot st obj k1 k2 x =
     (case read_slot obj k1 of
        Shared a \<Rightarrow> bindF (set_prop (st a) k2 x) (\<lambda>v. Inr (st(a := v), obj))
      | Own t \<Rightarrow> bindF (set_prop t k2 x) (\<lambda>v. Inr (st, tupd k1 (Own v) obj)))"

definition merge_global_sources :: "store \<Rightarrow> tobj \<Rightarrow> tobj \<Rightarrow> failure + store \<times> tobj" where
  "merge_global_sources st config bundlerConfig =
     bindF (get_prop (tget st bundlerConfig ''sources'') ''global'') (\<lambda>bundlerGlobal.
     bindF (get_prop (tget st config ''sources'') ''global'') (\<lambda>configGlobal.
       case mergeWith [] bundlerGlobal configGlobal concat_customizer of
         None \<Rightarrow> Inl Unmodelled
       | Some globalSources \<Rightarrow>
           assign_slot st bundlerConfig ''sources'' ''global'' (Obj globalSources)))"

subsection \<open>Assembly (lines 140-173)\<close>

record controllerOptions =
  autoLaunch :: bool
  controllerVersion :: val
  autoStop :: val

record scriptRunnerConfig =
  host :: val
  port :: val
  controller :: controllerOptions

record testRunnerConfig =
  runner :: scriptRunnerConfig
  server_port :: val
  executionTimeout :: val
  restartThreshold :: val

record executionConfig =
  test_runner :: testRunnerConfig
  environment_host :: val
  environment_port :: val
  test_pattern :: string
  mocks :: val
  bundler :: fields
  bundler_is_array :: bool

definition make_scriptRunnerConfig :: "store \<Rightarrow> tobj \<Rightarrow> failure + scriptRunnerConfig" where
  "make_scriptRunnerConfig st config =
     (let c = tget st config ''controller'' in
      bindF (get_prop c ''host'') (\<lambda>h.
      bindF (get_prop c ''ports'') (\<lambda>ports.
      bindF (get_prop ports ''primary'') (\<lambda>p.
      bindF (get_prop c ''autoLaunch'') (\<lambda>al.
      bindF (get_prop al ''disabled'') (\<lambda>disabled.
      bindF (get_prop al ''version'') (\<lambda>version.
      bindF (get_prop al ''stop'') (\<lambda>stop.
        Inr \<lparr>host = h, port = p,
             controller = \<lparr>autoLaunch = \<not> truthy disabled,
                           controllerVersion = version,
                           autoStop = stop\<rparr>\<rparr>))))))))"

definition make_testRunnerConfig ::
  "store \<Rightarrow> tobj \<Rightarrow> scriptRunnerConfig \<Rightarrow> failure + testRunnerConfig" where
  "make_testRunnerConfig st config src =
     (let t = tget st config ''testServer'' in
      bindF (get_prop t ''port'') (\<lambda>p.
      bindF (get_prop t ''defaultExecutionTimeout'') (\<lambda>timeout.
      bindF (get_prop t ''restartThreshold'') (\<lambda>threshold.
        Inr \<lparr>runner = src, server_port = p, executionTimeout = timeout,
             restartThreshold = threshold\<rparr>))))"

definition lift_error :: "error + 'a \<Rightarrow> failure + 'a" where
  "lift_error x = (case x of Inl e \<Rightarrow> Inl (Thrown e) | Inr v \<Rightarrow> Inr v)"

definition make_executionConfig ::
  "store \<Rightarrow> tobj \<Rightarrow> tobj \<Rightarrow> bool \<Rightarrow> testRunnerConfig \<Rightarrow> val \<Rightarrow> failure + executionConfig" where
  "make_executionConfig st config bundlerConfig is_array trc pathArg =
     (let t = tget st config ''testServer'' in
      bindF (get_prop t ''host'') (\<lambda>h.
      bindF (get_prop t ''port'') (\<lambda>p.
      bindF (lift_error (getTestPattern pathArg)) (\<lambda>pat.
        Inr \<lparr>test_runner = trc, environment_host = h, environment_port = p,
             test_pattern = pat, mocks = tget st config ''mocks'',
             bundler = snapshot st bundlerConfig, bundler_is_array = is_array\<rparr>))))"

subsection \<open>\<open>main\<close>\<close>

text \<open>
  What the driver does not own is a parameter: the file system behind \<open>readFileSync\<close>,
  \<open>JSON.parse\<close>, and the one operation of the execution service (\<open>Some e\<close> when the
  promise of \<open>execute\<close> rejects with \<open>e\<close>). The constructors of the collaborators only
  receive their configuration.
\<close>

record env =
  readFileSync :: "val \<Rightarrow> error + string"
  JSON_parse :: "string \<Rightarrow> error + val"
  execute :: "executionConfig \<Rightarrow> error option"

record args =
  arg_positional :: "val list"
  arg_config :: val
  arg_bundle :: val

datatype printed = Line string | Err error

text \<open>
  How a run ends: \<open>process.exit(n)\<close>; the promise of \<open>main\<close> resolving; that promise
  rejecting, with no handler attached by \<open>main()\<close> on line 186; or a run that leaves the
  value model.
\<close>

datatype ending = Exit nat | Resolved | Rejected error | OutsideModel

record outcome =
  printed :: "printed list"
  files_read :: "val list"
  executed :: "executionConfig option"
  ending :: ending

definition printHelp :: "printed list" where
  "printHelp =
     [Line ''Usage: npx urscript-tester [--config <config.json>] [--bundle <config.json>] [path]'',
      Line ''Tool used to generate unique script bundles'',
      Line ''Options:'',
      Line ''--config Test configuration file'',
      Line ''--bundle Optional bundle configuration file'',
      Line ''Expression (glob format) used to determine tests to execute'']"

text \<open>Lines 98-118: parse, copy the defaults, derive the bundler configuration, merge.\<close>

definition configure ::
  "env \<Rightarrow> string \<Rightarrow> string option \<Rightarrow> failure + store \<times> tobj \<times> tobj" where
  "configure e contents bundleContents =
     bindF (lift_error (JSON_parse e contents)) (\<lambda>userConfig.
     let config = defaultConfig in
     bindF (derive_bundlerConfig (JSON_parse e) initial_store config bundleContents) (\<lambda>bundlerConfig.
     bindF (lodash_merge initial_store config userConfig) (\<lambda>(st, config').
       Inr (st, config', bundlerConfig))))"

text \<open>Lines 98-173: the body of the \<open>try\<close> up to the construction of the execution service.\<close>

definition try_body ::
  "env \<Rightarrow> string \<Rightarrow> string option \<Rightarrow> val \<Rightarrow> failure + executionConfig" where
  "try_body e contents bundleContents pathArg =
     bindF (configure e contents bundleContents) (\<lambda>(st, config, bundlerConfig).
     bindF (merge_global_sources st config bundlerConfig) (\<lambda>(st', bundlerConfig').
     bindF (make_scriptRunnerConfig st' config) (\<lambda>src.
     bindF (make_testRunnerConfig st' config src) (\<lambda>trc.
       make_executionConfig st' config bundlerConfig'
         (bundle_is_array (JSON_parse e) bundleContents) trc pathArg))))"

definition first_positional :: "val list \<Rightarrow> val" where
  "first_positional path = (case path of [] \<Rightarrow> Undef | x # xs \<Rightarrow> x)"

definition main :: "env \<Rightarrow> args \<Rightarrow> outcome" where
  "main e a =
     (if \<not> truthy (arg_config a)
      then \<lparr>printed = printHelp, files_read = [], executed = None, ending = Exit 0\<rparr>
      else
        (case readFileSync e (arg_config a) of
           Inl err \<Rightarrow>
             \<lparr>printed = [], files_read = [arg_config a], executed = None, ending = Rejected err\<rparr>
         | Inr contents \<Rightarrow>
             (case (if truthy (arg_bundle a)
                    then (case readFileSync e (arg_bundle a) of
                            Inl err \<Rightarrow> Inl err | Inr text \<Rightarrow> Inr (Some text))
                    else Inr None) of
                Inl err \<Rightarrow>
                  \<lparr>printed = [], files_read = [arg_config a, arg_bundle a], executed = None,
                   ending = Rejected err\<rparr>
              | Inr bundleContents \<Rightarrow>
                  (let reads = (if truthy (arg_bundle a) then [arg_config a, arg_bundle a]
                                else [arg_config a]) in
                   case try_body e contents bundleContents (first_positional (arg_positional a)) of
                     Inl (Thrown err) \<Rightarrow>
                       \<lparr>printed = [Err err], files_read = reads, executed = None, ending = Exit 1\<rparr>
                   | Inl Unmodelled \<Rightarrow>
                       \<lparr>printed = [], files_read = reads, executed = None, ending = OutsideModel\<rparr>
                   | Inr cfg \<Rightarrow>
                       (case execute e cfg of
                          Some err \<Rightarrow>
                            \<lparr>printed = [Err err], files_read = reads, executed = Some cfg,
                             ending = Exit 1\<rparr>
                        | None \<Rightarrow>
                            \<lparr>printed = [], files_read = reads, executed = Some cfg,
                             ending = Resolved\<rparr>)))))"

section \<open>Reading results, and an example installation\<close>

text \<open>\<open>at v [k1, ..., kn]\<close> is \<open>v.k1. ... .kn\<close>, \<open>undefined\<close> where a step is missing.\<close>

definition at :: "val \<Rightarrow> string list \<Rightarrow> val" where
  "at v p = foldl (\<lambda>x k. case x of Obj fs \<Rightarrow> get fs k | _ \<Rightarrow> Undef) v p"

text \<open>
  The named properties of the bundler configuration handed to the execution service, if
  the run got that far.
\<close>

definition bundler_of :: "outcome \<Rightarrow> val" where
  "bundler_of out = (case executed out of None \<Rightarrow> Undef | Some cfg \<Rightarrow> Obj (bundler cfg))"

text \<open>
  Well-formed files, one malformed file, and what \<open>JSON.parse\<close> returns on their
  texts; the example file system has no other file and the example parser is asked for
  no other text. \<open>readFileSync\<close> accepts a path string (or a file descriptor, none of
  which is open here) and throws a \<open>TypeError\<close> on anything else, such as the \<open>true\<close>
  that \<open>minimist\<close> yields for a \<open>--config\<close> flag without a value.
\<close>

definition config_text_ports :: string where
  "config_text_ports = ''{\"controller\":{\"ports\":{\"primary\":40001}}}''"

definition config_text_sources :: string where
  "config_text_sources = ''{\"sources\":{\"global\":{\"scripts\":{\"include\":[\"a.script\"]}}}}''"

definition bundle_text_sources :: string where
  "bundle_text_sources = ''{\"sources\":{\"global\":{\"scripts\":{\"include\":[\"b.script\"]}}}}''"

definition bundle_text_options :: string where
  "bundle_text_options = ''{\"options\":{\"bundleKey\":\"k\"}}''"

definition bundle_text_number :: string where
  "bundle_text_number = ''{\"sources\":5}''"

definition bundle_text_array :: string where
  "bundle_text_array = ''[{\"bundleKey\":\"k\"}]''"

definition bundle_text_null :: string where
  "bundle_text_null = ''null''"

definition user_ports :: val where
  "user_ports = Obj [(''controller'', Obj [(''ports'', Obj [(''primary'', Num 40001)])])]"

definition include_only :: "string \<Rightarrow> val" where
  "include_only g =
     Obj [(''sources'', Obj [(''global'', Obj [(''scripts'', Obj [(''include'', Arr [Str g])])])])]"

definition example_parse :: "string \<Rightarrow> error + val" where
  "example_parse text =
     (if text = config_text_ports then Inr user_ports
      else if text = config_text_sources then Inr (include_only ''a.script'')
      else if text = bundle_text_sources then Inr (include_only ''b.script'')
      else if text = bundle_text_options then Inr (Obj [(''options'', Obj [(''bundleKey'', Str ''k'')])])
      else if text = bundle_text_number then Inr (Obj [(''sources'', Num 5)])
      else if text = bundle_text_array then Inr (Arr [Obj [(''bundleKey'', Str ''k'')]])
      else if text = bundle_text_null then Inr Null
      else Inl (ParseError text))"

definition example_files :: "val \<Rightarrow> error + string" where
  "example_files p =
     (if p = Str ''ports.json'' then Inr config_text_ports
      else if p = Str ''cfg.json'' then Inr config_text_sources
      else if p = Str ''bundle.json'' then Inr bundle_text_sources
      else if p = Str ''options.json'' then Inr bundle_text_options
      else if p = Str ''number.json'' then Inr bundle_text_number
      else if p = Str ''array.json'' then Inr bundle_text_array
      else if p = Str ''null.json'' then Inr bundle_text_null
      else if p = Str ''broken.json'' then Inr ''{''
      else (case p of
              Str name \<Rightarrow> Inl (LoadError p)
            | Num fd \<Rightarrow> Inl (LoadError p)
            | _ \<Rightarrow> Inl (TypeError ''The \"path\" argument must be of type string or an integer'')))"

definition example_env :: env where
  "example_env =
     \<lparr>readFileSync = example_files, JSON_parse = example_parse, execute = (\<lambda>c. None)\<rparr>"

section \<open>The shape of a test configuration\<close>

text \<open>
  A shape describes which properties a configuration object may have: a scalar leaf, a
  scalar leaf that may be missing even from a complete configuration, an array of glob
  strings, or a record of named shapes.
\<close>

datatype leaf = LString | LNumber | LBoolean

datatype shape = Leaf leaf | OptionalLeaf leaf | Strings | Record "(string \<times> shape) list"

fun leaf_ok :: "leaf \<Rightarrow> val \<Rightarrow> bool" where
  "leaf_ok LString v = (case v of Str s \<Rightarrow> True | _ \<Rightarrow> False)"
| "leaf_ok LNumber v = (case v of Num n \<Rightarrow> True | _ \<Rightarrow> False)"
| "leaf_ok LBoolean v = (case v of Bool b \<Rightarrow> True | _ \<Rightarrow> False)"

fun is_optional :: "shape \<Rightarrow> bool" where
  "is_optional (OptionalLeaf l) = True"
| "is_optional t = False"

fun is_record :: "shape \<Rightarrow> bool" where
  "is_record (Record sh) = True"
| "is_record t = False"

definition is_Str :: "val \<Rightarrow> bool" where
  "is_Str v = (case v of Str s \<Rightarrow> True | _ \<Rightarrow> False)"

text \<open>
  \<open>conforms False t v\<close>: \<open>v\<close> is a partial value of shape \<open>t\<close> (any property may be
  missing, none is foreign, no name occurs twice). \<open>conforms True t v\<close>: moreover only
  optional leaves are missing.
\<close>

fun conforms :: "bool \<Rightarrow> shape \<Rightarrow> val \<Rightarrow> bool" where
  "conforms whole (Leaf l) v = leaf_ok l v"
| "conforms whole (OptionalLeaf l) v = leaf_ok l v"
| "conforms whole Strings v = (case v of Arr xs \<Rightarrow> (\<forall>x \<in> set xs. is_Str x) | _ \<Rightarrow> False)"
| "conforms whole (Record sh) v =
     (case v of
        Obj fs \<Rightarrow>
          distinct (map fst fs)
          \<and> (\<forall>k \<in> set (map fst fs). k \<in> set (map fst sh))
          \<and> (\<forall>(k, t) \<in> set sh.
                case map_of fs k of
                  None \<Rightarrow> \<not> whole \<or> is_optional t
                | Some x \<Rightarrow> conforms whole t x)
      | _ \<Rightarrow> False)"

fun shape_at :: "shape \<Rightarrow> string list \<Rightarrow> shape option" where
  "shape_at t [] = Some t"
| "shape_at (Record sh) (k # p) = (case map_of sh k of None \<Rightarrow> None | Some t \<Rightarrow> shape_at t p)"
| "shape_at t (k # p) = None"

text \<open>No property and no array element, at any depth, is \<open>undefined\<close>.\<close>

fun defined_everywhere :: "val \<Rightarrow> bool" where
  "defined_everywhere Undef = False"
| "defined_everywhere (Arr xs) = (\<forall>x \<in> set xs. defined_everywhere x)"
| "defined_everywhere (Obj fs) = (\<forall>(k, x) \<in> set fs. defined_everywhere x)"
| "defined_everywhere v = True"

text \<open>
  Modelled from the spec: the declaration of \<open>IURTesterCliConfig\<close> (\<open>src/cli/types.ts\<close>)
  is not among the sources. The shape below is the CliConfiguration of the data model:
  \<open>controller\<close> (host, primary port, auto-launch settings), \<open>testServer\<close> (host, port,
  default execution timeout, optional restart threshold), \<open>mocks\<close> and
  \<open>sources.global.scripts\<close> (include/exclude glob sets).
\<close>

definition controller_shape :: shape where
  "controller_shape =
     Record [(''host'', Leaf LString),
             (''ports'', Record [(''primary'', Leaf LNumber)]),
             (''autoLaunch'', Record [(''disabled'', Leaf LBoolean),
                                      (''version'', Leaf LString),
                                      (''stop'', Leaf LBoolean)])]"

definition testServer_shape :: shape where
  "testServer_shape =
     Record [(''host'', Leaf LString),
             (''port'', Leaf LNumber),
             (''defaultExecutionTimeout'', Leaf LNumber),
             (''restartThreshold'', OptionalLeaf LNumber)]"

definition globs_shape :: shape where
  "globs_shape = Record [(''include'', Strings), (''exclude'', Strings)]"

definition sources_shape :: shape where
  "sources_shape = Record [(''global'', Record [(''scripts'', globs_shape)])]"

definition config_fields :: "(string \<times> shape) list" where
  "config_fields =
     [(''controller'', controller_shape),
      (''testServer'', testServer_shape),
      (''mocks'', globs_shape),
      (''sources'', sources_shape)]"

definition config_shape :: shape where
  "config_shape = Record config_fields"

text \<open>
  What an index-by-index merge leaves at a leaf: the default where the user value is
  missing; for arrays the user's elements followed by the default's elements beyond the
  user's length; the user value otherwise.
\<close>

definition overlay :: "val \<Rightarrow> val \<Rightarrow> val" where
  "overlay dv uv =
     (case uv of
        Undef \<Rightarrow> dv
      | Arr us \<Rightarrow> (case dv of Arr ds \<Rightarrow> Arr (us @ drop (length us) ds) | _ \<Rightarrow> uv)
      | _ \<Rightarrow> uv)"

text \<open>No name occurs twice in a top-level object and no two properties refer to the same cell.\<close>

definition unshared :: "tobj \<Rightarrow> bool" where
  "unshared obj =
     (distinct (map fst obj)
      \<and> (\<forall>(k, s) \<in> set obj. \<forall>(k', s') \<in> set obj.
            (case s of Shared a \<Rightarrow> s' = Shared a \<longrightarrow> k = k' | Own v \<Rightarrow> True)))"

text \<open>The configuration after line 118, read through the store.\<close>

definition merged_config :: "val \<Rightarrow> val" where
  "merged_config u =
     (case lodash_merge initial_store defaultConfig u of
        Inl f \<Rightarrow> Undef
      | Inr (st, config) \<Rightarrow> Obj (snapshot st config))"


definition user_empty_mocks :: val where
  "user_empty_mocks = Obj [(''mocks'', Obj [(''include'', Arr [])])]"

definition user_mixed :: val where
  "user_mixed =
     Obj [(''controller'', Obj [(''ports'', Obj [(''primary'', Num 40001)])]),
          (''mocks'', Obj [(''include'', Arr [Str ''a.mock.script'', Str ''b.mock.script''])])]"

section \<open>Properties of the test pattern resolver\<close>






section \<open>Association lists and the two merges\<close>

lemma map_of_upd: "map_of (upd k v fs) = (map_of fs)(k \<mapsto> v)"
  by (induction fs) auto

lemma map_of_tupd: "map_of (tupd k v fs) = (map_of fs)(k \<mapsto> v)"
  by (induction fs) auto

lemma get_upd: "get (upd k v fs) k' = (if k' = k then v else get fs k')"
  by (simp add: get_def map_of_upd)

lemma keys_upd: "fst ` set (upd k v fs) = insert k (fst ` set fs)"
  by (simp add: dom_map_of_conv_image_fst [symmetric] map_of_upd)

lemma distinct_upd: "distinct (map fst fs) \<Longrightarrow> distinct (map fst (upd k v fs))"
proof (induction fs)
  case Nil
  then show ?case by simp
next
  case (Cons a fs)
  obtain k' v' where a: "a = (k', v')" by (cases a)
  show ?case
    using Cons keys_upd [of k v fs] by (auto simp: a)
qed

lemma tget_tupd: "tget st (tupd k v obj) k = resolve st v"
  by (simp add: tget_def map_of_tupd)

lemma ensure_sources_truthy: "truthy (tget st (ensure_sources st b) ''sources'')"
  by (simp add: ensure_sources_def tget_tupd resolve_def)

lemma merge_cust_total:
  "\<exists>v. merge_val (Some concat_customizer) ov s = Some v"
  "\<exists>r. merge_fields (Some concat_customizer) d sf = Some r"
  "\<exists>r. merge_elems (Some concat_customizer) ds ss = Some r"
proof (induction "Some concat_customizer" ov s and "Some concat_customizer" d sf
    and "Some concat_customizer" ds ss rule: merge_val_merge_fields_merge_elems.induct)
qed (auto simp: apply_customizer_def concat_customizer_def isArray_def Let_def split: val.splits)

lemma merge_fields_map_of:
  "distinct (map fst sf) \<Longrightarrow> merge_fields c d sf = Some r \<Longrightarrow>
     map_of r k = (case map_of sf k of None \<Rightarrow> map_of d k
                   | Some s \<Rightarrow> Some (the (merge_val c (get d k) s)))"
proof (induction sf arbitrary: d)
  case Nil
  then show ?case by simp
next
  case (Cons a sf)
  obtain k0 s0 where a: "a = (k0, s0)" by (cases a)
  from Cons.prems obtain v where v: "merge_val c (get d k0) s0 = Some v"
    and r: "merge_fields c (upd k0 v d) sf = Some r"
    by (auto simp: a split: option.splits)
  have d: "distinct (map fst sf)" and notin: "k0 \<notin> fst ` set sf"
    using Cons.prems(1) by (auto simp: a)
  have nk: "map_of sf k0 = None"
    using notin by (simp add: map_of_eq_None_iff)
  show ?case
    using Cons.IH [OF d r] v nk
    by (auto simp: a map_of_upd get_upd split: option.splits)
qed

lemma merge_elems_strings:
  "merge_elems (Some concat_customizer) [] (map Str xs) = Some (map Str xs)"
  by (induction xs) (auto simp: apply_customizer_def concat_customizer_def isArray_def)

lemma customizer_simps:
  "apply_customizer (Some concat_customizer) (Arr xs) s = Arr (js_concat xs s)"
  "\<not> isArray ov \<Longrightarrow> apply_customizer (Some concat_customizer) ov s = Undef"
  "apply_customizer None ov s = Undef"
  by (simp_all add: apply_customizer_def concat_customizer_def isArray_def)

lemma clone_strings:
  "merge_val (Some concat_customizer) Undef (Arr (map Str xs)) = Some (Arr (map Str xs))"
  by (simp add: customizer_simps isArray_def isArrayLikeObject_def merge_elems_strings)

lemma concat_strings:
  "merge_val (Some concat_customizer) (Arr xs) (Arr ys) = Some (Arr (xs @ ys))"
  by (simp add: customizer_simps js_concat_def)

lemma mergeWith_objects:
  "mergeWith [] (Obj fa) (Obj fb) c =
     (case merge_fields (Some c) [] fa of None \<Rightarrow> None | Some r1 \<Rightarrow> merge_fields (Some c) r1 fb)"
  by (simp add: mergeWith_def assign_source_def source_fields_def split: option.splits)

lemma mergeWith_concat_key:
  assumes da: "distinct (map fst fa)" and db: "distinct (map fst fb)"
    and a: "map_of fa k = Some (Arr (map Str xs))"
    and b: "map_of fb k = Some (Arr (map Str ys))"
    and r: "mergeWith [] (Obj fa) (Obj fb) concat_customizer = Some r"
  shows "get r k = Arr (map Str xs @ map Str ys)"
proof -
  from r obtain r1 where r1: "merge_fields (Some concat_customizer) [] fa = Some r1"
    and r2: "merge_fields (Some concat_customizer) r1 fb = Some r"
    by (auto simp: mergeWith_objects split: option.splits)
  have "map_of r1 k = Some (Arr (map Str xs))"
    using merge_fields_map_of [OF da r1, of k] a
    by (simp add: get_def clone_strings del: merge_val.simps)
  then have "get r1 k = Arr (map Str xs)"
    by (simp add: get_def)
  then have "map_of r k = Some (Arr (map Str xs @ map Str ys))"
    using merge_fields_map_of [OF db r2, of k] b
    by (simp add: concat_strings del: merge_val.simps)
  then show ?thesis
    by (simp add: get_def)
qed

lemma mergeWith_total: "\<exists>r. mergeWith [] a b concat_customizer = Some r"
proof -
  obtain r1 where r1: "merge_fields (Some concat_customizer) [] (source_fields a) = Some r1"
    using merge_cust_total(2) by blast
  obtain r2 where "merge_fields (Some concat_customizer) r1 (source_fields b) = Some r2"
    using merge_cust_total(2) by blast
  moreover obtain r3 where "merge_fields (Some concat_customizer) [] (source_fields b) = Some r3"
    using merge_cust_total(2) by blast
  ultimately show ?thesis
    using r1 by (auto simp: mergeWith_def assign_source_def)
qed

section \<open>Evaluating the driver\<close>

lemmas example_texts = config_text_ports_def config_text_sources_def bundle_text_sources_def
  bundle_text_options_def bundle_text_number_def bundle_text_array_def bundle_text_null_def

lemmas example_defs = example_env_def example_files_def example_parse_def example_texts
  user_ports_def include_only_def

lemmas driver_defs = main_def try_body_def configure_def bindF_def lift_error_def
  derive_bundlerConfig_def parsed_bundlerConfig_def own_properties_def bundle_is_array_def
  ensure_sources_def synthesized_bundlerConfig_def read_slot_def tget_def resolve_def lodash_merge_def source_fields_def
  merge_global_sources_def mergeWith_def assign_source_def assign_slot_def get_prop_def set_prop_def
  make_scriptRunnerConfig_def make_testRunnerConfig_def make_executionConfig_def
  snapshot_def first_positional_def getTestPattern_def
  defaultConfig_def initial_store_def controller_addr_def testServer_addr_def mocks_addr_def
  sources_addr_def default_controller_def default_testServer_def default_mocks_def
  default_sources_def get_def in_place_def isArray_def isObject_def apply_customizer_def
  concat_customizer_def js_concat_def isArrayLikeObject_def

section \<open>The resolved test pattern\<close>




section \<open>Control flow of the driver\<close>

lemma outcome_after_reads:
  "files_read (case tb of
       Inl (Thrown err) \<Rightarrow> \<lparr>printed = [Err err], files_read = reads, executed = None, ending = Exit 1\<rparr>
     | Inl Unmodelled \<Rightarrow> \<lparr>printed = [], files_read = reads, executed = None, ending = OutsideModel\<rparr>
     | Inr cfg \<Rightarrow>
         (case ex cfg of
            Some err \<Rightarrow> \<lparr>printed = [Err err], files_read = reads, executed = Some cfg, ending = Exit 1\<rparr>
          | None \<Rightarrow> \<lparr>printed = [], files_read = reads, executed = Some cfg, ending = Resolved\<rparr>)) = reads"
  "Line s \<notin> set (printed (case tb of
       Inl (Thrown err) \<Rightarrow> \<lparr>printed = [Err err], files_read = reads, executed = None, ending = Exit 1\<rparr>
     | Inl Unmodelled \<Rightarrow> \<lparr>printed = [], files_read = reads, executed = None, ending = OutsideModel\<rparr>
     | Inr cfg \<Rightarrow>
         (case ex cfg of
            Some err \<Rightarrow> \<lparr>printed = [Err err], files_read = reads, executed = Some cfg, ending = Exit 1\<rparr>
          | None \<Rightarrow> \<lparr>printed = [], files_read = reads, executed = Some cfg, ending = Resolved\<rparr>)))"
  "ending (case tb of
       Inl (Thrown err) \<Rightarrow> \<lparr>printed = [Err err], files_read = reads, executed = None, ending = Exit 1\<rparr>
     | Inl Unmodelled \<Rightarrow> \<lparr>printed = [], files_read = reads, executed = None, ending = OutsideModel\<rparr>
     | Inr cfg \<Rightarrow>
         (case ex cfg of
            Some err \<Rightarrow> \<lparr>printed = [Err err], files_read = reads, executed = Some cfg, ending = Exit 1\<rparr>
          | None \<Rightarrow> \<lparr>printed = [], files_read = reads, executed = Some cfg, ending = Resolved\<rparr>)) \<noteq> Exit 0"
  by (simp_all split: sum.split failure.split option.split)

lemma main_with_config:
  assumes t: "truthy (arg_config a)"
  shows "(\<exists>rest. files_read (main e a) = arg_config a # rest)
         \<and> (\<forall>s. Line s \<notin> set (printed (main e a)))
         \<and> ending (main e a) \<noteq> Exit 0"
proof (cases "readFileSync e (arg_config a)")
  case (Inl err)
  then show ?thesis using t by (simp add: main_def)
next
  case (Inr contents)
  show ?thesis
  proof (cases "truthy (arg_bundle a)")
    case False
    then show ?thesis
      using t Inr by (simp add: main_def Let_def outcome_after_reads)
  next
    case True
    show ?thesis
    proof (cases "readFileSync e (arg_bundle a)")
      case (Inl err)
      then show ?thesis using t True Inr by (simp add: main_def)
    next
      case (Inr bundleText)
      then show ?thesis
        using t True \<open>readFileSync e (arg_config a) = Inr contents\<close>
        by (simp add: main_def Let_def outcome_after_reads)
    qed
  qed
qed

text \<open>
  C9 as stated fails: \<open>--config\<close> given as a bare flag names no path, \<open>minimist\<close>
  yields \<open>true\<close> for it, and the driver prints no usage text but passes \<open>true\<close> to
  \<open>readFileSync\<close>.
\<close>

theorem bare_config_flag_counterexample:
  "truthy (Bool True)
   \<and> files_read (main example_env
        \<lparr>arg_positional = [], arg_config = Bool True, arg_bundle = Undef\<rparr>) = [Bool True]
   \<and> printed (main example_env
        \<lparr>arg_positional = [], arg_config = Bool True, arg_bundle = Undef\<rparr>) = []
   \<and> ending (main example_env
        \<lparr>arg_positional = [], arg_config = Bool True, arg_bundle = Undef\<rparr>) \<noteq> Exit 0"
  by (simp add: example_defs driver_defs)

text \<open>
  C9, amended. When the \<open>--config\<close> option is absent (or its parsed value is falsy), the
  driver prints the six usage lines and exits with code 0, and no file has been read.
  For every other value of the option, the bare flag's \<open>true\<close> included, the driver
  prints no usage line and calls \<open>readFileSync\<close> on that value first.
\<close>

theorem main_help_when_config_absent:
  "(\<not> truthy (arg_config a) \<longrightarrow>
      main e a
        = \<lparr>printed =
             [Line ''Usage: npx urscript-tester [--config <config.json>] [--bundle <config.json>] [path]'',
              Line ''Tool used to generate unique script bundles'',
              Line ''Options:'',
              Line ''--config Test configuration file'',
              Line ''--bundle Optional bundle configuration file'',
              Line ''Expression (glob format) used to determine tests to execute''],
           files_read = [], executed = None, ending = Exit 0\<rparr>)
   \<and> (truthy (arg_config a) \<longrightarrow>
        (\<exists>rest. files_read (main e a) = arg_config a # rest)
        \<and> (\<forall>s. Line s \<notin> set (printed (main e a)))
        \<and> ending (main e a) \<noteq> Exit 0)"
proof (intro conjI impI)
  assume "\<not> truthy (arg_config a)"
  then show "main e a
        = \<lparr>printed =
             [Line ''Usage: npx urscript-tester [--config <config.json>] [--bundle <config.json>] [path]'',
              Line ''Tool used to generate unique script bundles'',
              Line ''Options:'',
              Line ''--config Test configuration file'',
              Line ''--bundle Optional bundle configuration file'',
              Line ''Expression (glob format) used to determine tests to execute''],
           files_read = [], executed = None, ending = Exit 0\<rparr>"
    by (simp add: main_def printHelp_def)
next
  assume t: "truthy (arg_config a)"
  show "\<exists>rest. files_read (main e a) = arg_config a # rest"
    using main_with_config [OF t] by blast
  show "\<forall>s. Line s \<notin> set (printed (main e a))"
    using main_with_config [OF t] by blast
  show "ending (main e a) \<noteq> Exit 0"
    using main_with_config [OF t] by blast
qed

theorem main_help_when_config_absent_witness:
  "\<not> truthy Undef
   \<and> main example_env \<lparr>arg_positional = [Str ''dir''], arg_config = Undef, arg_bundle = Undef\<rparr>
       = \<lparr>printed =
             [Line ''Usage: npx urscript-tester [--config <config.json>] [--bundle <config.json>] [path]'',
              Line ''Tool used to generate unique script bundles'',
              Line ''Options:'',
              Line ''--config Test configuration file'',
              Line ''--bundle Optional bundle configuration file'',
              Line ''Expression (glob format) used to determine tests to execute''],
           files_read = [], executed = None, ending = Exit 0\<rparr>
   \<and> truthy (Bool True)
   \<and> (\<exists>rest. files_read (main example_env
          \<lparr>arg_positional = [], arg_config = Bool True, arg_bundle = Undef\<rparr>) = Bool True # rest)"
  using main_help_when_config_absent
    [of "\<lparr>arg_positional = [Str ''dir''], arg_config = Undef, arg_bundle = Undef\<rparr>" example_env]
    main_help_when_config_absent
    [of "\<lparr>arg_positional = [], arg_config = Bool True, arg_bundle = Undef\<rparr>" example_env]
  by simp

text \<open>
  C1. The driver is run with \<open>--config missing.json\<close>, a file that cannot be read.
  \<open>readFileSync\<close> on line 89 throws before the \<open>try\<close> of line 97 is entered: nothing is
  printed by the driver, \<open>process.exit(1)\<close> is not reached, and the promise of \<open>main\<close>
  rejects with the load error. A malformed file, in contrast, ends in the \<open>catch\<close>.
\<close>

theorem main_load_error_escapes_catch:
  "main example_env \<lparr>arg_positional = [], arg_config = Str ''missing.json'', arg_bundle = Undef\<rparr>
     = \<lparr>printed = [], files_read = [Str ''missing.json''], executed = None,
        ending = Rejected (LoadError (Str ''missing.json''))\<rparr>
   \<and> main example_env \<lparr>arg_positional = [], arg_config = Str ''broken.json'', arg_bundle = Undef\<rparr>
     = \<lparr>printed = [Err (ParseError ''{'')], files_read = [Str ''broken.json''], executed = None,
        ending = Exit 1\<rparr>"
  by (simp add: example_defs driver_defs)

section \<open>The assembled configuration\<close>

text \<open>
  C7. When the configuration file parses to \<open>{"controller":{"ports":{"primary":40001}}}\<close>
  and no bundle file is given, the script runner configuration handed on has port 40001,
  host \<open>localhost\<close>, \<open>autoLaunch = true\<close> (the negation of the stored \<open>disabled\<close>),
  controller version \<open>5.3.1\<close> and \<open>autoStop = false\<close>.
\<close>

theorem scriptRunnerConfig_with_primary_port:
  "truthy path \<and> readFileSync e path = Inr contents \<and> JSON_parse e contents = Inr user_ports \<longrightarrow>
     (\<exists>cfg. executed (main e \<lparr>arg_positional = [], arg_config = path, arg_bundle = Undef\<rparr>) = Some cfg
        \<and> runner (test_runner cfg)
            = \<lparr>host = Str ''localhost'', port = Num 40001,
               controller = \<lparr>autoLaunch = True, controllerVersion = Str ''5.3.1'',
                             autoStop = Bool False\<rparr>\<rparr>)"
  by (simp add: user_ports_def driver_defs Let_def split: option.splits)

theorem scriptRunnerConfig_with_primary_port_witness:
  "truthy (Str ''ports.json'') \<and> readFileSync example_env (Str ''ports.json'') = Inr config_text_ports
   \<and> JSON_parse example_env config_text_ports = Inr user_ports
   \<and> (\<exists>cfg. executed (main example_env
                 \<lparr>arg_positional = [], arg_config = Str ''ports.json'', arg_bundle = Undef\<rparr>) = Some cfg
        \<and> port (runner (test_runner cfg)) = Num 40001
        \<and> autoLaunch (controller (runner (test_runner cfg))))"
proof -
  have h: "truthy (Str ''ports.json'') \<and> readFileSync example_env (Str ''ports.json'') = Inr config_text_ports
      \<and> JSON_parse example_env config_text_ports = Inr user_ports"
    by (simp add: example_env_def example_files_def example_parse_def)
  from scriptRunnerConfig_with_primary_port [of "Str ''ports.json''" example_env config_text_ports] h
  obtain cfg where
    "executed (main example_env
        \<lparr>arg_positional = [], arg_config = Str ''ports.json'', arg_bundle = Undef\<rparr>) = Some cfg"
    "runner (test_runner cfg)
       = \<lparr>host = Str ''localhost'', port = Num 40001,
          controller = \<lparr>autoLaunch = True, controllerVersion = Str ''5.3.1'',
                        autoStop = Bool False\<rparr>\<rparr>"
    by blast
  then show ?thesis
    using h by simp
qed

text \<open>
  C2 as stated fails: with \<open>a.script\<close> in the test configuration and \<open>b.script\<close> in the
  bundle configuration, the derived include list is not \<open>["a.script","b.script"]\<close>.
\<close>

theorem bundle_then_cli_counterexample:
  "at (bundler_of (main example_env
         \<lparr>arg_positional = [], arg_config = Str ''cfg.json'', arg_bundle = Str ''bundle.json''\<rparr>))
      [''sources'', ''global'', ''scripts'', ''include'']
     \<noteq> Arr [Str ''a.script'', Str ''b.script'']"
  by (simp add: example_defs driver_defs at_def bundler_of_def)

text \<open>
  C2, amended. When the test configuration sets \<open>sources.global.scripts.include\<close> to
  \<open>[a]\<close> and the bundle configuration sets it to \<open>[b]\<close>, the derived
  \<open>bundlerConfig.sources.global.scripts.include\<close> is \<open>[b, a]\<close>: the bundle
  configuration's elements first, then the test configuration's, none dropped.
\<close>

theorem bundle_then_cli_order:
  "truthy cp \<and> truthy bp \<and> readFileSync e cp = Inr ctext \<and> readFileSync e bp = Inr btext
   \<and> btext \<noteq> [] \<and> JSON_parse e ctext = Inr (include_only a) \<and> JSON_parse e btext = Inr (include_only b)
   \<longrightarrow> at (bundler_of (main e \<lparr>arg_positional = [], arg_config = cp, arg_bundle = bp\<rparr>))
          [''sources'', ''global'', ''scripts'', ''include'']
        = Arr [Str b, Str a]"
  by (simp add: include_only_def driver_defs at_def bundler_of_def Let_def split: option.splits)

theorem bundle_then_cli_order_witness:
  "truthy (Str ''cfg.json'') \<and> truthy (Str ''bundle.json'')
   \<and> readFileSync example_env (Str ''cfg.json'') = Inr config_text_sources
   \<and> readFileSync example_env (Str ''bundle.json'') = Inr bundle_text_sources
   \<and> bundle_text_sources \<noteq> []
   \<and> JSON_parse example_env config_text_sources = Inr (include_only ''a.script'')
   \<and> JSON_parse example_env bundle_text_sources = Inr (include_only ''b.script'')
   \<and> at (bundler_of (main example_env
           \<lparr>arg_positional = [], arg_config = Str ''cfg.json'', arg_bundle = Str ''bundle.json''\<rparr>))
        [''sources'', ''global'', ''scripts'', ''include'']
      = Arr [Str ''b.script'', Str ''a.script'']"
proof -
  have h: "truthy (Str ''cfg.json'') \<and> truthy (Str ''bundle.json'')
     \<and> readFileSync example_env (Str ''cfg.json'') = Inr config_text_sources
     \<and> readFileSync example_env (Str ''bundle.json'') = Inr bundle_text_sources
     \<and> bundle_text_sources \<noteq> []
     \<and> JSON_parse example_env config_text_sources = Inr (include_only ''a.script'')
     \<and> JSON_parse example_env bundle_text_sources = Inr (include_only ''b.script'')"
    by (simp add: example_env_def example_files_def example_parse_def config_text_ports_def
        config_text_sources_def bundle_text_sources_def bundle_text_options_def)
  show ?thesis
    using h bundle_then_cli_order [of "Str ''cfg.json''" "Str ''bundle.json''" example_env
        config_text_sources bundle_text_sources "''a.script''" "''b.script''"]
    by blast
qed

section \<open>The bundler configuration and the source-set merge\<close>

lemma digit_char_digit: "d < 10 \<Longrightarrow> digit_char d \<in> set ''0123456789''"
  unfolding digit_char_def by (rule nth_mem) simp

lemma show_nat_digits: "set (show_nat n) \<subseteq> set ''0123456789''"
proof (induction n rule: show_nat.induct)
  case (1 n)
  show ?case
  proof (cases "n < 10")
    case True
    then have "show_nat n = [digit_char n]"
      by (subst show_nat.simps) simp
    then show ?thesis
      using digit_char_digit [OF True] by simp
  next
    case False
    then have "show_nat n = show_nat (n div 10) @ [digit_char (n mod 10)]"
      by (subst show_nat.simps) simp
    moreover have "digit_char (n mod 10) \<in> set ''0123456789''"
      by (rule digit_char_digit) simp
    ultimately show ?thesis
      using 1 [OF False] by simp
  qed
qed

lemma show_nat_not_sources: "show_nat n \<noteq> ''sources''"
proof
  assume "show_nat n = ''sources''"
  then have "CHR ''s'' \<in> set (show_nat n)" by simp
  then have "CHR ''s'' \<in> set ''0123456789''"
    using show_nat_digits by blast
  then show False by simp
qed

lemma array_has_no_sources: "map_of (zip (map show_nat [0..<length xs]) xs) ''sources'' = None"
proof -
  have "''sources'' \<notin> set (map show_nat [0..<length xs])"
  proof
    assume "''sources'' \<in> set (map show_nat [0..<length xs])"
    then obtain i where "show_nat i = ''sources''" by auto
    then show False using show_nat_not_sources by blast
  qed
  then show ?thesis
    by (simp add: map_of_zip_is_None)
qed

lemma tget_own_properties_object:
  "tget st (own_properties (Obj fs)) k = get fs k"
  by (simp add: own_properties_def tget_def get_def map_of_map resolve_def split: option.splits)

lemma tget_own_properties_array:
  "tget st (own_properties (Arr xs)) ''sources'' = Undef"
  by (simp add: own_properties_def tget_def map_of_map array_has_no_sources)

text \<open>
  C6 as stated fails: a bundle file \<open>{"sources":5}\<close> leaves \<open>sources\<close> the number 5
  after the derivation, defined but not an object, and the run ends in the \<open>catch\<close>
  when line 138 assigns to a property of it.
\<close>

theorem bundler_sources_number_counterexample:
  "derived_sources example_parse (Some bundle_text_number) = Num 5
   \<and> \<not> isObject (derived_sources example_parse (Some bundle_text_number))
   \<and> ending (main example_env
        \<lparr>arg_positional = [], arg_config = Str ''ports.json'', arg_bundle = Str ''number.json''\<rparr>)
      = Exit 1"
  by (simp add: derived_sources_def example_defs driver_defs Let_def)

text \<open>
  C6, amended. Whenever the derivation completes, the \<open>sources\<close> of the bundler
  configuration is never \<open>undefined\<close> nor any other falsy value. A bundle object whose
  \<open>sources\<close> is missing or falsy gets the empty object, and so does a bundle array; a
  truthy \<open>sources\<close> is kept as it is, an object or not. A bundle file that parses to
  \<open>null\<close> or another primitive makes the derivation throw a \<open>TypeError\<close>, a malformed
  one the parse error. With no bundle file, or an empty one, \<open>sources\<close> is the very
  reference held by the configuration's \<open>sources\<close>, the object of the defaults.
\<close>

theorem bundler_sources_after_derivation:
  "(\<forall>b. derive_bundlerConfig parse st config bundleContents = Inr b
        \<longrightarrow> truthy (tget st b ''sources''))
   \<and> (\<forall>t fs. t \<noteq> [] \<and> parse t = Inr (Obj fs) \<and> \<not> truthy (get fs ''sources'') \<longrightarrow>
        (\<exists>b. derive_bundlerConfig parse st config (Some t) = Inr b
            \<and> tget st b ''sources'' = Obj []))
   \<and> (\<forall>t fs. t \<noteq> [] \<and> parse t = Inr (Obj fs) \<and> truthy (get fs ''sources'') \<longrightarrow>
        (\<exists>b. derive_bundlerConfig parse st config (Some t) = Inr b
            \<and> tget st b ''sources'' = get fs ''sources''))
   \<and> (\<forall>t xs. t \<noteq> [] \<and> parse t = Inr (Arr xs) \<longrightarrow>
        (\<exists>b. derive_bundlerConfig parse st config (Some t) = Inr b
            \<and> tget st b ''sources'' = Obj []))
   \<and> (\<forall>t v. t \<noteq> [] \<and> parse t = Inr v \<and> \<not> isObject v \<longrightarrow>
        (\<exists>m. derive_bundlerConfig parse st config (Some t) = Inl (Thrown (TypeError m))))
   \<and> (\<forall>t err. t \<noteq> [] \<and> parse t = Inl err \<longrightarrow>
        derive_bundlerConfig parse st config (Some t) = Inl (Thrown err))
   \<and> derive_bundlerConfig parse st config (Some []) = derive_bundlerConfig parse st config None
   \<and> (\<exists>b. derive_bundlerConfig parse initial_store defaultConfig None = Inr b
        \<and> read_slot b ''sources'' = read_slot defaultConfig ''sources''
        \<and> read_slot b ''sources'' = Shared sources_addr
        \<and> tget initial_store b ''sources'' = default_sources)"
proof -
  have defined: "truthy (tget st b ''sources'')"
    if "derive_bundlerConfig parse st config bundleContents = Inr b" for b
    using that
    by (auto simp: derive_bundlerConfig_def parsed_bundlerConfig_def ensure_sources_truthy
        split: option.splits if_splits sum.splits val.splits)
  have omitted: "\<exists>b. derive_bundlerConfig parse st config (Some t) = Inr b \<and> tget st b ''sources'' = Obj []"
    if "t \<noteq> [] \<and> parse t = Inr (Obj fs) \<and> \<not> truthy (get fs ''sources'')" for t fs
    using that
    by (simp add: derive_bundlerConfig_def parsed_bundlerConfig_def ensure_sources_def
        tget_own_properties_object tget_tupd resolve_def)
  have kept: "\<exists>b. derive_bundlerConfig parse st config (Some t) = Inr b
                \<and> tget st b ''sources'' = get fs ''sources''"
    if "t \<noteq> [] \<and> parse t = Inr (Obj fs) \<and> truthy (get fs ''sources'')" for t fs
    using that
    by (simp add: derive_bundlerConfig_def parsed_bundlerConfig_def ensure_sources_def
        tget_own_properties_object)
  have array: "\<exists>b. derive_bundlerConfig parse st config (Some t) = Inr b \<and> tget st b ''sources'' = Obj []"
    if "t \<noteq> [] \<and> parse t = Inr (Arr xs)" for t xs
    using that
    by (simp add: derive_bundlerConfig_def parsed_bundlerConfig_def ensure_sources_def
        tget_own_properties_array tget_tupd resolve_def)
  have primitive: "\<exists>m. derive_bundlerConfig parse st config (Some t) = Inl (Thrown (TypeError m))"
    if "t \<noteq> [] \<and> parse t = Inr v \<and> \<not> isObject v" for t v
    using that
    by (cases v) (simp_all add: derive_bundlerConfig_def parsed_bundlerConfig_def isObject_def)
  have malformed: "derive_bundlerConfig parse st config (Some t) = Inl (Thrown err)"
    if "t \<noteq> [] \<and> parse t = Inl err" for t err
    using that by (simp add: derive_bundlerConfig_def)
  have empty: "derive_bundlerConfig parse st config (Some []) = derive_bundlerConfig parse st config None"
    by (simp add: derive_bundlerConfig_def)
  have synthesized: "\<exists>b. derive_bundlerConfig parse initial_store defaultConfig None = Inr b
        \<and> read_slot b ''sources'' = read_slot defaultConfig ''sources''
        \<and> read_slot b ''sources'' = Shared sources_addr
        \<and> tget initial_store b ''sources'' = default_sources"
    by (simp add: derive_bundlerConfig_def ensure_sources_def synthesized_bundlerConfig_def
        read_slot_def defaultConfig_def tget_def resolve_def initial_store_def default_sources_def
        sources_addr_def controller_addr_def testServer_addr_def mocks_addr_def)
  from defined omitted kept array primitive malformed empty synthesized show ?thesis
    by blast
qed

theorem bundler_sources_after_derivation_witness:
  "bundle_text_options \<noteq> []
   \<and> example_parse bundle_text_options = Inr (Obj [(''options'', Obj [(''bundleKey'', Str ''k'')])])
   \<and> \<not> truthy (get [(''options'', Obj [(''bundleKey'', Str ''k'')])] ''sources'')
   \<and> (\<exists>b. derive_bundlerConfig example_parse initial_store defaultConfig (Some bundle_text_options) = Inr b
        \<and> tget initial_store b ''sources'' = Obj []
        \<and> truthy (tget initial_store b ''sources''))
   \<and> bundle_text_number \<noteq> []
   \<and> example_parse bundle_text_number = Inr (Obj [(''sources'', Num 5)])
   \<and> truthy (get [(''sources'', Num 5)] ''sources'')
   \<and> (\<exists>b. derive_bundlerConfig example_parse initial_store defaultConfig (Some bundle_text_number) = Inr b
        \<and> tget initial_store b ''sources'' = Num 5)
   \<and> bundle_text_array \<noteq> []
   \<and> example_parse bundle_text_array = Inr (Arr [Obj [(''bundleKey'', Str ''k'')]])
   \<and> (\<exists>b. derive_bundlerConfig example_parse initial_store defaultConfig (Some bundle_text_array) = Inr b
        \<and> tget initial_store b ''sources'' = Obj [])
   \<and> bundle_text_null \<noteq> []
   \<and> example_parse bundle_text_null = Inr Null \<and> \<not> isObject Null
   \<and> (\<exists>m. derive_bundlerConfig example_parse initial_store defaultConfig (Some bundle_text_null)
             = Inl (Thrown (TypeError m)))
   \<and> ''{'' \<noteq> [] \<and> example_parse ''{'' = Inl (ParseError ''{'')
   \<and> derive_bundlerConfig example_parse initial_store defaultConfig (Some ''{'')
        = Inl (Thrown (ParseError ''{''))"
proof -
  note th = bundler_sources_after_derivation [of example_parse initial_store defaultConfig]
  note defined = th [of "Some bundle_text_options", THEN conjunct1]
  note omitted = th [of None, THEN conjunct2, THEN conjunct1]
  note kept = th [of None, THEN conjunct2, THEN conjunct2, THEN conjunct1]
  note array = th [of None, THEN conjunct2, THEN conjunct2, THEN conjunct2, THEN conjunct1]
  note primitive = th [of None, THEN conjunct2, THEN conjunct2, THEN conjunct2, THEN conjunct2,
      THEN conjunct1]
  note malformed = th [of None, THEN conjunct2, THEN conjunct2, THEN conjunct2, THEN conjunct2,
      THEN conjunct2, THEN conjunct1]
  have h1: "bundle_text_options \<noteq> []
     \<and> example_parse bundle_text_options = Inr (Obj [(''options'', Obj [(''bundleKey'', Str ''k'')])])
     \<and> \<not> truthy (get [(''options'', Obj [(''bundleKey'', Str ''k'')])] ''sources'')"
    by (simp add: example_parse_def example_texts get_def)
  have h2: "bundle_text_number \<noteq> []
     \<and> example_parse bundle_text_number = Inr (Obj [(''sources'', Num 5)])
     \<and> truthy (get [(''sources'', Num 5)] ''sources'')"
    by (simp add: example_parse_def example_texts get_def)
  have h3: "bundle_text_array \<noteq> []
     \<and> example_parse bundle_text_array = Inr (Arr [Obj [(''bundleKey'', Str ''k'')]])"
    by (simp add: example_parse_def example_texts)
  have h4: "bundle_text_null \<noteq> [] \<and> example_parse bundle_text_null = Inr Null \<and> \<not> isObject Null"
    by (simp add: example_parse_def example_texts isObject_def)
  have h5: "''{'' \<noteq> [] \<and> example_parse ''{'' = Inl (ParseError ''{'')"
    by (simp add: example_parse_def example_texts)
  from omitted h1 obtain b where
    b: "derive_bundlerConfig example_parse initial_store defaultConfig (Some bundle_text_options) = Inr b"
      "tget initial_store b ''sources'' = Obj []"
    by blast
  with defined have t1: "truthy (tget initial_store b ''sources'')"
    by blast
  have r1: "\<exists>b. derive_bundlerConfig example_parse initial_store defaultConfig (Some bundle_text_options) = Inr b
        \<and> tget initial_store b ''sources'' = Obj []
        \<and> truthy (tget initial_store b ''sources'')"
    using b t1 by blast
  from kept h2 have
    "\<exists>b. derive_bundlerConfig example_parse initial_store defaultConfig (Some bundle_text_number) = Inr b
        \<and> tget initial_store b ''sources'' = get [(''sources'', Num 5)] ''sources''"
    by blast
  then have r2: "\<exists>b. derive_bundlerConfig example_parse initial_store defaultConfig (Some bundle_text_number) = Inr b
        \<and> tget initial_store b ''sources'' = Num 5"
    by (simp add: get_def)
  from array h3 have r3:
    "\<exists>b. derive_bundlerConfig example_parse initial_store defaultConfig (Some bundle_text_array) = Inr b
        \<and> tget initial_store b ''sources'' = Obj []"
    by blast
  from primitive h4 have r4:
    "\<exists>m. derive_bundlerConfig example_parse initial_store defaultConfig (Some bundle_text_null)
             = Inl (Thrown (TypeError m))"
    by blast
  from malformed h5 have r5:
    "derive_bundlerConfig example_parse initial_store defaultConfig (Some ''{'')
        = Inl (Thrown (ParseError ''{''))"
    by blast
  show ?thesis
    by (intro conjI h1 [THEN conjunct1] h1 [THEN conjunct2, THEN conjunct1]
        h1 [THEN conjunct2, THEN conjunct2] r1
        h2 [THEN conjunct1] h2 [THEN conjunct2, THEN conjunct1] h2 [THEN conjunct2, THEN conjunct2] r2
        h3 [THEN conjunct1] h3 [THEN conjunct2] r3
        h4 [THEN conjunct1] h4 [THEN conjunct2, THEN conjunct1] h4 [THEN conjunct2, THEN conjunct2] r4
        h5 [THEN conjunct1] h5 [THEN conjunct2] r5)
qed

text \<open>
  C4. For two source sets \<open>A\<close> and \<open>B\<close> whose \<open>include\<close> and \<open>exclude\<close> are arrays of
  glob strings, the source-set merge \<open>mergeWith({}, A, B, customizer)\<close> returns a set
  whose \<open>include\<close> is the elements of \<open>A.include\<close> followed by those of \<open>B.include\<close>,
  of length \<open>A.include.length + B.include.length\<close>, and likewise for \<open>exclude\<close>.
\<close>

theorem concat_merge_appends:
  "distinct (map fst fa) \<and> distinct (map fst fb)
   \<and> map_of fa ''include'' = Some (Arr (map Str ia)) \<and> map_of fb ''include'' = Some (Arr (map Str ib))
   \<and> map_of fa ''exclude'' = Some (Arr (map Str ea)) \<and> map_of fb ''exclude'' = Some (Arr (map Str eb))
   \<longrightarrow> (\<exists>r. mergeWith [] (Obj fa) (Obj fb) concat_customizer = Some r
          \<and> get r ''include'' = Arr (map Str ia @ map Str ib)
          \<and> get r ''exclude'' = Arr (map Str ea @ map Str eb)
          \<and> length (map Str ia @ map Str ib) = length ia + length ib
          \<and> length (map Str ea @ map Str eb) = length ea + length eb)"
proof
  assume h: "distinct (map fst fa) \<and> distinct (map fst fb)
   \<and> map_of fa ''include'' = Some (Arr (map Str ia)) \<and> map_of fb ''include'' = Some (Arr (map Str ib))
   \<and> map_of fa ''exclude'' = Some (Arr (map Str ea)) \<and> map_of fb ''exclude'' = Some (Arr (map Str eb))"
  obtain r where r: "mergeWith [] (Obj fa) (Obj fb) concat_customizer = Some r"
    using mergeWith_total by blast
  have "get r ''include'' = Arr (map Str ia @ map Str ib)"
    using h r by (intro mergeWith_concat_key [of fa fb]) simp_all
  moreover have "get r ''exclude'' = Arr (map Str ea @ map Str eb)"
    using h r by (intro mergeWith_concat_key [of fa fb]) simp_all
  ultimately show "\<exists>r. mergeWith [] (Obj fa) (Obj fb) concat_customizer = Some r
          \<and> get r ''include'' = Arr (map Str ia @ map Str ib)
          \<and> get r ''exclude'' = Arr (map Str ea @ map Str eb)
          \<and> length (map Str ia @ map Str ib) = length ia + length ib
          \<and> length (map Str ea @ map Str eb) = length ea + length eb"
    using r by simp
qed

theorem concat_merge_appends_witness:
  "distinct (map fst [(''include'', Arr (map Str [''a'', ''b''])), (''exclude'', Arr (map Str []))])
   \<and> distinct (map fst [(''exclude'', Arr (map Str [''x''])), (''include'', Arr (map Str [''c'']))])
   \<and> (\<exists>r. mergeWith [] (Obj [(''include'', Arr (map Str [''a'', ''b''])), (''exclude'', Arr (map Str []))])
                       (Obj [(''exclude'', Arr (map Str [''x''])), (''include'', Arr (map Str [''c'']))])
                       concat_customizer = Some r
        \<and> get r ''include'' = Arr [Str ''a'', Str ''b'', Str ''c'']
        \<and> get r ''exclude'' = Arr [Str ''x''])"
  using concat_merge_appends
    [of "[(''include'', Arr (map Str [''a'', ''b''])), (''exclude'', Arr (map Str []))]"
        "[(''exclude'', Arr (map Str [''x''])), (''include'', Arr (map Str [''c'']))]"
        "[''a'', ''b'']" "[''c'']" "[]" "[''x'']"]
  by simp

section \<open>Merging a conforming configuration onto the defaults\<close>

lemma leaf_merge:
  "leaf_ok l u \<Longrightarrow> merge_val None d u = Some u"
  by (cases l; cases u) (simp_all add: apply_customizer_def)

lemma merge_elems_overwrite:
  "\<forall>x \<in> set us. is_Str x \<Longrightarrow> merge_elems None ds us = Some (us @ drop (length us) ds)"
proof (induction us arbitrary: ds)
  case Nil
  then show ?case by simp
next
  case (Cons u us)
  then obtain s where u: "u = Str s"
    by (cases u) (auto simp: is_Str_def)
  show ?case
  proof (cases ds)
    case Nil
    then show ?thesis
      using Cons.IH [of "[]"] Cons.prems by (simp add: u apply_customizer_def)
  next
    case (Cons d ds')
    then show ?thesis
      using Cons.IH [of ds'] Cons.prems by (simp add: u apply_customizer_def)
  qed
qed

lemma strings_merge:
  "conforms w Strings d \<Longrightarrow> conforms w' Strings u \<Longrightarrow>
     \<exists>ds us. d = Arr ds \<and> u = Arr us \<and> merge_val None d u = Some (Arr (us @ drop (length us) ds))"
  by (cases d; cases u) (simp_all add: apply_customizer_def merge_elems_overwrite)

lemma optional_leaf_merge:
  "is_optional t \<Longrightarrow> conforms False t x \<Longrightarrow> merge_val None Undef x = Some x \<and> conforms True t x"
  by (cases t) (simp_all add: leaf_merge)

lemma conforms_RecordI:
  "distinct (map fst fs) \<Longrightarrow> fst ` set fs \<subseteq> fst ` set sh
   \<Longrightarrow> (\<And>k t. (k, t) \<in> set sh \<Longrightarrow>
          (case map_of fs k of None \<Rightarrow> \<not> whole \<or> is_optional t | Some x \<Rightarrow> conforms whole t x))
   \<Longrightarrow> conforms whole (Record sh) (Obj fs)"
  by auto

lemma conforms_RecordD:
  assumes "conforms whole (Record sh) v"
  obtains fs where "v = Obj fs" "distinct (map fst fs)" "fst ` set fs \<subseteq> fst ` set sh"
    "\<And>k t. (k, t) \<in> set sh \<Longrightarrow>
       (case map_of fs k of None \<Rightarrow> \<not> whole \<or> is_optional t | Some x \<Rightarrow> conforms whole t x)"
proof (cases v)
  case (Obj fs)
  with assms have "distinct (map fst fs)" "fst ` set fs \<subseteq> fst ` set sh"
    "\<forall>(k, t) \<in> set sh.
       (case map_of fs k of None \<Rightarrow> \<not> whole \<or> is_optional t | Some x \<Rightarrow> conforms whole t x)"
    by auto
  then show ?thesis
    using that [of fs] Obj by fastforce
qed (use assms in simp_all)

lemma record_merge:
  assumes IH: "\<And>k t d u. (k, t) \<in> set sh \<Longrightarrow> conforms True t d \<Longrightarrow> conforms False t u
                 \<Longrightarrow> \<exists>r. merge_val None d u = Some r \<and> conforms True t r"
  shows "conforms True (Record sh) (Obj df) \<Longrightarrow> distinct (map fst uf)
         \<Longrightarrow> fst ` set uf \<subseteq> fst ` set sh
         \<Longrightarrow> (\<And>k t x. (k, t) \<in> set sh \<Longrightarrow> map_of uf k = Some x \<Longrightarrow> conforms False t x)
         \<Longrightarrow> \<exists>rf. merge_fields None df uf = Some rf \<and> conforms True (Record sh) (Obj rf)"
proof (induction uf arbitrary: df)
  case Nil
  then show ?case by (simp del: conforms.simps)
next
  case (Cons a rest)
  obtain k0 x0 where a: "a = (k0, x0)" by (cases a)
  have dist: "distinct (map fst rest)" and fresh: "map_of rest k0 = None"
    using Cons.prems(2) by (auto simp: a map_of_eq_None_iff)
  have user: "\<And>t. (k0, t) \<in> set sh \<Longrightarrow> conforms False t x0"
    using Cons.prems(4) [of k0 _ x0] by (simp add: a)
  from Cons.prems(1) have ddf: "distinct (map fst df)" and kdf: "fst ` set df \<subseteq> fst ` set sh"
    and dflt: "\<And>k t. (k, t) \<in> set sh \<Longrightarrow>
      (case map_of df k of None \<Rightarrow> \<not> True \<or> is_optional t | Some x \<Rightarrow> conforms True t x)"
    by (auto elim!: conforms_RecordD simp del: conforms.simps)
  obtain t0 where t0: "(k0, t0) \<in> set sh"
    using Cons.prems(3) by (auto simp: a)
  have "\<exists>v. merge_val None (get df k0) x0 = Some v \<and> (\<forall>t. (k0, t) \<in> set sh \<longrightarrow> conforms True t v)"
  proof (cases "map_of df k0")
    case None
    have "is_optional t" if "(k0, t) \<in> set sh" for t
      using dflt [OF that] None by simp
    then have opt: "\<And>t. (k0, t) \<in> set sh \<Longrightarrow> merge_val None Undef x0 = Some x0 \<and> conforms True t x0"
      using optional_leaf_merge user by blast
    have "merge_val None (get df k0) x0 = Some x0"
      using opt [OF t0] None by (simp add: get_def)
    then show ?thesis
      using opt by blast
  next
    case (Some dv)
    have dv: "conforms True t dv" if "(k0, t) \<in> set sh" for t
      using dflt [OF that] Some by simp
    obtain r where r: "merge_val None dv x0 = Some r"
      using IH [OF t0 dv [OF t0] user [OF t0]] by blast
    have "conforms True t r" if "(k0, t) \<in> set sh" for t
      using IH [OF that dv [OF that] user [OF that]] r by auto
    moreover have "get df k0 = dv"
      using Some by (simp add: get_def)
    ultimately show ?thesis
      using r by blast
  qed
  then obtain v where v: "merge_val None (get df k0) x0 = Some v"
    and vt: "\<And>t. (k0, t) \<in> set sh \<Longrightarrow> conforms True t v"
    by blast
  have c': "conforms True (Record sh) (Obj (upd k0 v df))"
  proof (rule conforms_RecordI)
    show "distinct (map fst (upd k0 v df))"
      using ddf by (rule distinct_upd)
    have "k0 \<in> fst ` set sh"
      using t0 by force
    then show "fst ` set (upd k0 v df) \<subseteq> fst ` set sh"
      using kdf by (simp add: keys_upd)
    show "case map_of (upd k0 v df) k of None \<Rightarrow> \<not> True \<or> is_optional t
          | Some x \<Rightarrow> conforms True t x" if "(k, t) \<in> set sh" for k t
    proof (cases "k = k0")
      case True
      then show ?thesis using vt that by (simp add: map_of_upd)
    next
      case False
      then show ?thesis using dflt [OF that] by (simp add: map_of_upd)
    qed
  qed
  have keys': "fst ` set rest \<subseteq> fst ` set sh"
    using Cons.prems(3) by simp
  have user': "conforms False t x" if "(k, t) \<in> set sh" "map_of rest k = Some x" for k t x
  proof -
    have "k \<noteq> k0" using that(2) fresh by auto
    then show ?thesis
      using Cons.prems(4) [OF that(1), of x] that(2) by (simp add: a)
  qed
  from Cons.IH [OF c' dist keys' user'] v show ?case
    by (simp add: a del: conforms.simps)
qed

lemma merge_conforms:
  "conforms True t d \<Longrightarrow> conforms False t u \<Longrightarrow>
     \<exists>r. merge_val None d u = Some r \<and> conforms True t r"
proof (induction t arbitrary: d u)
  case (Leaf l)
  then show ?case by (simp add: leaf_merge)
next
  case (OptionalLeaf l)
  then show ?case by (simp add: leaf_merge)
next
  case Strings
  from strings_merge [OF Strings.prems] obtain ds us where
    "d = Arr ds" "u = Arr us" "merge_val None d u = Some (Arr (us @ drop (length us) ds))"
    by blast
  then show ?case
    using Strings.prems by (auto dest: in_set_dropD)
next
  case (Record sh)
  from Record.prems(1) obtain df where d: "d = Obj df"
    by (auto elim: conforms_RecordD simp del: conforms.simps)
  from Record.prems(2) obtain uf where u: "u = Obj uf" and duf: "distinct (map fst uf)"
    and kuf: "fst ` set uf \<subseteq> fst ` set sh"
    and cuf: "\<And>k t. (k, t) \<in> set sh \<Longrightarrow>
       (case map_of uf k of None \<Rightarrow> \<not> False \<or> is_optional t | Some x \<Rightarrow> conforms False t x)"
    by (auto elim!: conforms_RecordD simp del: conforms.simps)
  have IH: "\<exists>r. merge_val None d u = Some r \<and> conforms True t r"
    if "(k, t) \<in> set sh" "conforms True t d" "conforms False t u" for k t d u
    using Record.IH [OF that(1), of t d u] that(2,3) by simp
  have "\<exists>rf. merge_fields None df uf = Some rf \<and> conforms True (Record sh) (Obj rf)"
  proof (rule record_merge [where sh = sh])
    show "\<exists>r. merge_val None d u = Some r \<and> conforms True t r"
      if "(k, t) \<in> set sh" "conforms True t d" "conforms False t u" for k t d u
      using that by (rule IH)
    show "conforms True (Record sh) (Obj df)"
      using Record.prems(1) by (simp only: d)
    show "distinct (map fst uf)" by (rule duf)
    show "fst ` set uf \<subseteq> fst ` set sh" by (rule kuf)
    show "conforms False t x" if "(k, t) \<in> set sh" "map_of uf k = Some x" for k t x
      using cuf [OF that(1)] that(2) by simp
  qed
  then obtain rf where "merge_fields None df uf = Some rf" "conforms True (Record sh) (Obj rf)"
    by blast
  then show ?case
    by (simp add: d u apply_customizer_def del: conforms.simps)
qed

lemma at_Nil: "at v [] = v"
  by (simp add: at_def)

lemma at_Cons: "at v (k # p) = at (case v of Obj fs \<Rightarrow> get fs k | _ \<Rightarrow> Undef) p"
  by (simp add: at_def)

lemma at_Undef: "at Undef p = Undef"
  by (induction p) (simp_all add: at_Nil at_Cons)

lemma leaf_overlay: "leaf_ok l u \<Longrightarrow> overlay d u = u"
  by (cases l; cases u) (simp_all add: overlay_def)

lemma merge_val_objects:
  "merge_val None (Obj df) (Obj uf) = map_option Obj (merge_fields None df uf)"
  by (simp add: apply_customizer_def)

lemma merge_at:
  "conforms True t d \<Longrightarrow> conforms False t u \<Longrightarrow> shape_at t p = Some t' \<Longrightarrow> \<not> is_record t'
   \<Longrightarrow> at (the (merge_val None d u)) p = overlay (at d p) (at u p)"
proof (induction p arbitrary: t d u)
  case Nil
  then have t: "t' = t" by simp
  show ?case
  proof (cases t)
    case (Leaf l)
    then show ?thesis using Nil.prems by (simp add: at_Nil leaf_merge leaf_overlay)
  next
    case (OptionalLeaf l)
    then show ?thesis using Nil.prems by (simp add: at_Nil leaf_merge leaf_overlay)
  next
    case Strings
    with strings_merge [of True d False u] Nil.prems show ?thesis
      by (auto simp: at_Nil overlay_def)
  next
    case (Record sh)
    then show ?thesis using Nil.prems(4) t by simp
  qed
next
  case (Cons k p)
  from Cons.prems(3) obtain sh where t: "t = Record sh"
    by (cases t) simp_all
  from Cons.prems(3) obtain tk where tk: "map_of sh k = Some tk" and sub: "shape_at tk p = Some t'"
    by (auto simp: t split: option.splits)
  have mem: "(k, tk) \<in> set sh"
    using tk by (rule map_of_SomeD)
  from Cons.prems(1) obtain df where d: "d = Obj df"
    and cdf: "case map_of df k of None \<Rightarrow> \<not> True \<or> is_optional tk | Some x \<Rightarrow> conforms True tk x"
    using mem unfolding t by (auto elim!: conforms_RecordD simp del: conforms.simps)
  from Cons.prems(2) obtain uf where u: "u = Obj uf" and duf: "distinct (map fst uf)"
    and cuf: "case map_of uf k of None \<Rightarrow> \<not> False \<or> is_optional tk | Some x \<Rightarrow> conforms False tk x"
    using mem unfolding t by (auto elim!: conforms_RecordD simp del: conforms.simps)
  from merge_conforms [OF Cons.prems(1,2)] obtain rf where rf: "merge_fields None df uf = Some rf"
    by (auto simp: d u merge_val_objects simp del: merge_val.simps conforms.simps)
  have r: "the (merge_val None d u) = Obj rf"
    using rf by (simp add: d u merge_val_objects del: merge_val.simps)
  note look = merge_fields_map_of [OF duf rf, of k]
  have lhs: "at (the (merge_val None d u)) (k # p) = at (get rf k) p"
    unfolding r by (simp add: at_Cons)
  have rhs: "at d (k # p) = at (get df k) p" "at u (k # p) = at (get uf k) p"
    by (simp_all add: d u at_Cons)
  show ?case
  proof (cases "map_of uf k")
    case None
    then have "get rf k = get df k"
      using look by (simp add: get_def)
    then show ?thesis
      using None unfolding lhs rhs by (simp add: get_def at_Undef overlay_def)
  next
    case (Some x)
    then have x: "conforms False tk x"
      using cuf by simp
    have g: "get rf k = the (merge_val None (get df k) x)"
      using look Some by (simp add: get_def)
    show ?thesis
    proof (cases "map_of df k")
      case None
      then have "is_optional tk" using cdf by simp
      then obtain l where l: "tk = OptionalLeaf l"
        by (cases tk) simp_all
      then have p: "p = []" using sub by (cases p) simp_all
      have lx: "leaf_ok l x" using x l by simp
      then have "merge_val None Undef x = Some x"
        by (rule leaf_merge)
      moreover have "get df k = Undef" "get uf k = x"
        using None Some by (simp_all add: get_def)
      ultimately have "get rf k = x"
        using g by (simp del: merge_val.simps)
      then show ?thesis
        using lx \<open>get df k = Undef\<close> \<open>get uf k = x\<close> unfolding lhs rhs
        by (simp add: at_Nil p leaf_overlay)
    next
      case (Some dv)
      then have "conforms True tk dv" using cdf by simp
      moreover have "get df k = dv" "get uf k = x"
        using Some \<open>map_of uf k = Some x\<close> by (simp_all add: get_def)
      ultimately show ?thesis
        using Cons.IH [OF _ x sub Cons.prems(4), of dv] unfolding lhs rhs
        by (simp add: g del: merge_val.simps)
    qed
  qed
qed

lemma is_Str_defined: "is_Str x \<Longrightarrow> defined_everywhere x"
  by (cases x) (simp_all add: is_Str_def)

lemma conforms_defined: "conforms whole t v \<Longrightarrow> defined_everywhere v"
proof (induction t arbitrary: v)
  case (Leaf l)
  then show ?case by (cases l; cases v) simp_all
next
  case (OptionalLeaf l)
  then show ?case by (cases l; cases v) simp_all
next
  case Strings
  then show ?case by (cases v) (simp_all add: is_Str_defined)
next
  case (Record sh)
  from Record.prems obtain fs where v: "v = Obj fs" and dfs: "distinct (map fst fs)"
    and kfs: "fst ` set fs \<subseteq> fst ` set sh"
    and cfs: "\<And>k t. (k, t) \<in> set sh \<Longrightarrow>
       (case map_of fs k of None \<Rightarrow> \<not> whole \<or> is_optional t | Some x \<Rightarrow> conforms whole t x)"
    by (auto elim!: conforms_RecordD simp del: conforms.simps)
  have "defined_everywhere x" if "(k, x) \<in> set fs" for k x
  proof -
    from that kfs obtain t where t: "(k, t) \<in> set sh" by force
    have "map_of fs k = Some x"
      using dfs that by simp
    with cfs [OF t] have "conforms whole t x" by simp
    with Record.IH [OF t, of t x] show ?thesis by simp
  qed
  then show ?case by (auto simp: v)
qed

lemma get_snapshot: "get (snapshot st obj) k = tget st obj k"
  by (induction obj) (auto simp: get_def snapshot_def tget_def)

lemma snapshot_Cons: "snapshot st ((k, s) # obj) = (k, resolve st s) # snapshot st obj"
  by (simp add: snapshot_def)

lemma snapshot_other_cell:
  "\<forall>(k, s) \<in> set obj. s \<noteq> Shared a \<Longrightarrow> snapshot (st(a := v)) obj = snapshot st obj"
  by (induction obj) (auto simp: snapshot_def resolve_def split: slot.splits)

lemma snapshot_shared_update:
  "unshared obj \<Longrightarrow> map_of obj k = Some (Shared a)
   \<Longrightarrow> snapshot (st(a := v)) obj = upd k v (snapshot st obj)"
proof (induction obj)
  case Nil
  then show ?case by simp
next
  case (Cons e obj)
  obtain k' s' where e: "e = (k', s')" by (cases e)
  have tail: "unshared obj"
    using Cons.prems(1) by (auto simp: unshared_def)
  show ?case
  proof (cases "k' = k")
    case True
    then have s': "s' = Shared a"
      using Cons.prems(2) by (simp add: e)
    have "\<forall>(k'', s'') \<in> set obj. s'' \<noteq> Shared a"
    proof (clarify)
      fix k'' assume "(k'', Shared a) \<in> set obj"
      then have "k'' = k \<and> k'' \<in> fst ` set obj"
        using Cons.prems(1) True s' by (force simp: unshared_def e)
      then show False
        using Cons.prems(1) True by (auto simp: unshared_def e)
    qed
    then have same: "snapshot (st(a := v)) obj = snapshot st obj"
      by (rule snapshot_other_cell)
    have "snapshot (st(a := v)) (e # obj) = (k, v) # snapshot (st(a := v)) obj"
      by (simp only: e True s' snapshot_Cons) (simp add: resolve_def)
    also have "\<dots> = (k, v) # snapshot st obj"
      by (simp only: same)
    also have "\<dots> = upd k v (snapshot st (e # obj))"
      by (simp add: e True snapshot_Cons)
    finally show ?thesis .
  next
    case False
    then have look: "map_of obj k = Some (Shared a)"
      using Cons.prems(2) by (simp add: e)
    then have "(k, Shared a) \<in> set obj"
      by (rule map_of_SomeD)
    then have "s' \<noteq> Shared a"
      using Cons.prems(1) False by (force simp: unshared_def e)
    then have res: "resolve (st(a := v)) s' = resolve st s'"
      by (cases s') (simp_all add: resolve_def)
    have "snapshot (st(a := v)) (e # obj) = (k', resolve (st(a := v)) s') # snapshot (st(a := v)) obj"
      by (simp only: e snapshot_Cons)
    also have "\<dots> = (k', resolve st s') # upd k v (snapshot st obj)"
      by (simp only: res Cons.IH [OF tail look])
    also have "\<dots> = upd k v (snapshot st (e # obj))"
      using False by (simp add: e snapshot_Cons)
    finally show ?thesis .
  qed
qed

lemma merge_top_in_place:
  assumes un: "unshared obj"
  shows "\<forall>(k, s) \<in> set sf. (\<exists>xf. s = Obj xf) \<and> (\<exists>a. map_of obj k = Some (Shared a))
     \<Longrightarrow> \<forall>k a. map_of obj k = Some (Shared a) \<longrightarrow> (\<exists>df. st a = Obj df)
     \<Longrightarrow> merge_fields None (snapshot st obj) sf = Some rf
     \<Longrightarrow> \<exists>st'. merge_top st obj sf = Some (st', obj) \<and> snapshot st' obj = rf"
proof (induction sf arbitrary: st)
  case Nil
  then show ?case by simp
next
  case (Cons e sf)
  obtain k s where e: "e = (k, s)" by (cases e)
  from Cons.prems(1) obtain xf a where s: "s = Obj xf" and slot: "map_of obj k = Some (Shared a)"
    by (auto simp: e)
  from Cons.prems(2) slot obtain df where cell: "st a = Obj df"
    by blast
  have cur: "tget st obj k = Obj df" "get (snapshot st obj) k = Obj df"
    using slot cell by (simp_all add: get_snapshot) (simp_all add: tget_def resolve_def)
  from Cons.prems(3) obtain v where v: "merge_val None (Obj df) (Obj xf) = Some v"
    and rest: "merge_fields None (upd k v (snapshot st obj)) sf = Some rf"
    by (auto simp: e s cur simp del: merge_val.simps split: option.splits)
  from v obtain vf where vf: "v = Obj vf"
    by (auto simp: merge_val_objects simp del: merge_val.simps)
  have snap: "snapshot (st(a := v)) obj = upd k v (snapshot st obj)"
    using un slot by (rule snapshot_shared_update)
  have cells: "\<forall>k a'. map_of obj k = Some (Shared a') \<longrightarrow> (\<exists>df. (st(a := v)) a' = Obj df)"
    using Cons.prems(2) vf by auto
  have srcs: "\<forall>(k, s) \<in> set sf. (\<exists>xf. s = Obj xf) \<and> (\<exists>a. map_of obj k = Some (Shared a))"
    using Cons.prems(1) by simp
  have rest': "merge_fields None (snapshot (st(a := v)) obj) sf = Some rf"
    using rest by (simp only: snap)
  from Cons.IH [OF srcs cells rest'] obtain st' where
    "merge_top (st(a := v)) obj sf = Some (st', obj)" "snapshot st' obj = rf"
    by blast
  then show ?case
    using v slot cell cur
    by (simp add: e s in_place_def isObject_def del: merge_val.simps)
qed

lemmas shape_defs = config_shape_def config_fields_def controller_shape_def testServer_shape_def
  globs_shape_def sources_shape_def

lemmas default_defs = defaultConfig_def initial_store_def controller_addr_def testServer_addr_def
  mocks_addr_def sources_addr_def default_controller_def default_testServer_def default_mocks_def
  default_sources_def

lemma default_conforms: "conforms True config_shape (Obj (snapshot initial_store defaultConfig))"
  by (simp add: shape_defs default_defs snapshot_def resolve_def is_Str_def)

lemma default_unshared: "unshared defaultConfig"
  by (simp add: unshared_def default_defs)

lemma default_cells: "\<forall>k a. map_of defaultConfig k = Some (Shared a) \<longrightarrow> (\<exists>df. initial_store a = Obj df)"
  by (simp add: default_defs)

lemma user_top_level:
  assumes "conforms False config_shape u"
  obtains uf where "u = Obj uf"
    "\<forall>(k, s) \<in> set uf. (\<exists>xf. s = Obj xf) \<and> (\<exists>a. map_of defaultConfig k = Some (Shared a))"
proof -
  from assms obtain uf where u: "u = Obj uf" and duf: "distinct (map fst uf)"
    and kuf: "fst ` set uf \<subseteq> fst ` set config_fields"
    and cuf: "\<And>k t. (k, t) \<in> set config_fields \<Longrightarrow>
       (case map_of uf k of None \<Rightarrow> \<not> False \<or> is_optional t | Some x \<Rightarrow> conforms False t x)"
    unfolding config_shape_def by (auto elim!: conforms_RecordD simp del: conforms.simps)
  have recs: "\<forall>(k, t) \<in> set config_fields. \<exists>sh. t = Record sh"
    by (simp add: shape_defs)
  have slots: "\<forall>k \<in> fst ` set config_fields. \<exists>a. map_of defaultConfig k = Some (Shared a)"
    by (simp add: config_fields_def defaultConfig_def)
  have "(\<exists>xf. s = Obj xf) \<and> (\<exists>a. map_of defaultConfig k = Some (Shared a))"
    if "(k, s) \<in> set uf" for k s
  proof -
    have look: "map_of uf k = Some s"
      using duf that by simp
    from that kuf obtain t where t: "(k, t) \<in> set config_fields" by force
    with recs obtain sh where "t = Record sh" by blast
    with cuf [OF t] look have "conforms False (Record sh) s" by simp
    then have "\<exists>xf. s = Obj xf"
      by (auto elim: conforms_RecordD simp del: conforms.simps)
    moreover have "\<exists>a. map_of defaultConfig k = Some (Shared a)"
      using slots t by force
    ultimately show ?thesis by blast
  qed
  then show ?thesis
    using that [of uf] u by blast
qed

lemma merge_defaults_core:
  assumes c: "conforms False config_shape u"
  obtains st where "lodash_merge initial_store defaultConfig u = Inr (st, defaultConfig)"
    "merge_val None (Obj (snapshot initial_store defaultConfig)) u = Some (Obj (snapshot st defaultConfig))"
    "conforms True config_shape (Obj (snapshot st defaultConfig))"
proof -
  from user_top_level [OF c] obtain uf where u: "u = Obj uf"
    and top: "\<forall>(k, s) \<in> set uf. (\<exists>xf. s = Obj xf) \<and> (\<exists>a. map_of defaultConfig k = Some (Shared a))"
    by blast
  from merge_conforms [OF default_conforms c] obtain r where
    r: "merge_val None (Obj (snapshot initial_store defaultConfig)) u = Some r"
    and cr: "conforms True config_shape r"
    by blast
  from r obtain rf where rf: "merge_fields None (snapshot initial_store defaultConfig) uf = Some rf"
    and r': "r = Obj rf"
    by (auto simp: u merge_val_objects simp del: merge_val.simps)
  from merge_top_in_place [OF default_unshared top default_cells rf] obtain st where
    st: "merge_top initial_store defaultConfig uf = Some (st, defaultConfig)"
    and snap: "snapshot st defaultConfig = rf"
    by blast
  have "lodash_merge initial_store defaultConfig u = Inr (st, defaultConfig)"
    using st by (simp add: lodash_merge_def u source_fields_def)
  then show ?thesis
    using that [of st] r cr by (simp add: r' snap del: merge_val.simps conforms.simps)
qed

lemma conforms_at:
  "conforms w t v \<Longrightarrow> shape_at t p = Some t' \<Longrightarrow> at v p = Undef \<or> conforms w t' (at v p)"
proof (induction p arbitrary: t v)
  case Nil
  then show ?case by (simp add: at_Nil del: conforms.simps)
next
  case (Cons k p)
  from Cons.prems(2) obtain sh where t: "t = Record sh"
    by (cases t) simp_all
  from Cons.prems(2) obtain tk where tk: "map_of sh k = Some tk" and sub: "shape_at tk p = Some t'"
    by (auto simp: t split: option.splits)
  have mem: "(k, tk) \<in> set sh"
    using tk by (rule map_of_SomeD)
  from Cons.prems(1) obtain fs where v: "v = Obj fs"
    and cfs: "case map_of fs k of None \<Rightarrow> \<not> w \<or> is_optional tk | Some x \<Rightarrow> conforms w tk x"
    using mem unfolding t by (auto elim!: conforms_RecordD simp del: conforms.simps)
  have step: "at v (k # p) = at (get fs k) p"
    by (simp add: v at_Cons)
  show ?case
  proof (cases "map_of fs k")
    case None
    then show ?thesis unfolding step by (simp add: get_def at_Undef del: conforms.simps)
  next
    case (Some x)
    then have "conforms w tk x" using cfs by simp
    from Cons.IH [OF this sub] show ?thesis
      unfolding step using Some by (simp add: get_def del: conforms.simps)
  qed
qed

lemma leaf_at_overlay:
  assumes "conforms False t u" "shape_at t p = Some t'" "t' = Leaf l \<or> t' = OptionalLeaf l"
  shows "overlay dv (at u p) = (if at u p = Undef then dv else at u p)"
proof -
  from conforms_at [OF assms(1,2)] assms(3) have "at u p = Undef \<or> leaf_ok l (at u p)"
    by auto
  then show ?thesis
  proof
    assume "at u p = Undef"
    then show ?thesis by (simp add: overlay_def)
  next
    assume ok: "leaf_ok l (at u p)"
    then have "at u p \<noteq> Undef" by (cases l) auto
    then show ?thesis using ok by (simp add: leaf_overlay)
  qed
qed

lemma clone_object:
  "merge_val (Some concat_customizer) Undef (Obj sa)
     = map_option Obj (merge_fields (Some concat_customizer) [] sa)"
  by (simp add: customizer_simps isArray_def)

lemma merge_into_object:
  "merge_val (Some concat_customizer) (Obj r1) (Obj sb)
     = map_option Obj (merge_fields (Some concat_customizer) r1 sb)"
  by (simp add: customizer_simps isArray_def)

lemma mergeWith_nested_key:
  assumes da: "distinct (map fst ga)" and db: "distinct (map fst gb)"
    and a: "map_of ga k = Some (Obj sa)"
    and b: "map_of gb k = Some (Obj sb)"
    and r: "mergeWith [] (Obj ga) (Obj gb) concat_customizer = Some r"
  shows "\<exists>r'. mergeWith [] (Obj sa) (Obj sb) concat_customizer = Some r' \<and> get r k = Obj r'"
proof -
  from r obtain r1 where r1: "merge_fields (Some concat_customizer) [] ga = Some r1"
    and r2: "merge_fields (Some concat_customizer) r1 gb = Some r"
    by (auto simp: mergeWith_objects split: option.splits)
  obtain s1 where s1: "merge_fields (Some concat_customizer) [] sa = Some s1"
    using merge_cust_total(2) by blast
  obtain s2 where s2: "merge_fields (Some concat_customizer) s1 sb = Some s2"
    using merge_cust_total(2) by blast
  have "map_of r1 k = Some (Obj s1)"
    using merge_fields_map_of [OF da r1, of k] a s1
    by (simp add: get_def clone_object del: merge_val.simps)
  then have "get r1 k = Obj s1"
    by (simp add: get_def)
  then have "map_of r k = Some (Obj s2)"
    using merge_fields_map_of [OF db r2, of k] b s2
    by (simp add: merge_into_object del: merge_val.simps)
  then have "get r k = Obj s2"
    by (simp add: get_def)
  moreover have "mergeWith [] (Obj sa) (Obj sb) concat_customizer = Some s2"
    using s1 s2 by (simp add: mergeWith_objects)
  ultimately show ?thesis by blast
qed

lemma conforms_field:
  assumes "conforms True (Record sh) v" "(k, t) \<in> set sh" "\<not> is_optional t"
  shows "\<exists>fs x. v = Obj fs \<and> distinct (map fst fs) \<and> map_of fs k = Some x \<and> conforms True t x"
proof -
  from assms(1) obtain fs where v: "v = Obj fs" and d: "distinct (map fst fs)"
    and c: "\<And>k t. (k, t) \<in> set sh \<Longrightarrow>
       (case map_of fs k of None \<Rightarrow> \<not> True \<or> is_optional t | Some x \<Rightarrow> conforms True t x)"
    by (auto elim!: conforms_RecordD simp del: conforms.simps)
  from c [OF assms(2)] assms(3) obtain x where "map_of fs k = Some x" "conforms True t x"
    by (cases "map_of fs k") simp_all
  then show ?thesis
    using v d by blast
qed

lemma conforms_strings: "conforms w Strings v \<Longrightarrow> \<exists>xs. v = Arr (map Str xs)"
proof (cases v)
  case (Arr ys)
  assume "conforms w Strings v"
  then have "\<forall>y \<in> set ys. is_Str y" using Arr by simp
  then have "\<exists>xs. ys = map Str xs"
  proof (induction ys)
    case Nil
    then show ?case by simp
  next
    case (Cons y ys)
    then obtain xs s where "ys = map Str xs" "y = Str s"
      by (cases y) (auto simp: is_Str_def)
    then have "y # ys = map Str (s # xs)" by simp
    then show ?case by (rule exI)
  qed
  then show ?thesis using Arr by blast
qed simp_all

lemma doubled_sources:
  assumes src: "conforms True sources_shape (st a)"
    and b: "read_slot b ''sources'' = Shared a" and c: "read_slot config ''sources'' = Shared a"
  shows "\<exists>xs ys st'.
           at (tget st config ''sources'') [''global'', ''scripts'', ''include''] = Arr xs
         \<and> at (tget st config ''sources'') [''global'', ''scripts'', ''exclude''] = Arr ys
         \<and> merge_global_sources st config b = Inr (st', b)
         \<and> at (tget st' b ''sources'') [''global'', ''scripts'', ''include''] = Arr (xs @ xs)
         \<and> at (tget st' b ''sources'') [''global'', ''scripts'', ''exclude''] = Arr (ys @ ys)
         \<and> tget st' config ''sources'' = tget st' b ''sources''"
proof -
  have tb: "\<And>s. tget s b ''sources'' = s a" and tc: "\<And>s. tget s config ''sources'' = s a"
    using b c by (auto simp: tget_def read_slot_def resolve_def split: option.splits)
  have "\<exists>F g. st a = Obj F \<and> distinct (map fst F) \<and> map_of F ''global'' = Some g
           \<and> conforms True (Record [(''scripts'', globs_shape)]) g"
    by (rule conforms_field [OF src [unfolded sources_shape_def]]) simp_all
  then obtain F g where F: "st a = Obj F" and Fg: "map_of F ''global'' = Some g"
    and cg: "conforms True (Record [(''scripts'', globs_shape)]) g"
    by blast
  have "\<exists>G sc. g = Obj G \<and> distinct (map fst G) \<and> map_of G ''scripts'' = Some sc
           \<and> conforms True globs_shape sc"
    by (rule conforms_field [OF cg]) (simp_all add: globs_shape_def)
  then obtain G sc where G: "g = Obj G" and dG: "distinct (map fst G)"
    and Gs: "map_of G ''scripts'' = Some sc" and cs: "conforms True globs_shape sc"
    by blast
  have "\<exists>S i. sc = Obj S \<and> distinct (map fst S) \<and> map_of S ''include'' = Some i
           \<and> conforms True Strings i"
    by (rule conforms_field [OF cs [unfolded globs_shape_def]]) simp_all
  then obtain S i where S: "sc = Obj S" and dS: "distinct (map fst S)"
    and Si: "map_of S ''include'' = Some i" and ci: "conforms True Strings i"
    by blast
  have "\<exists>S' x. sc = Obj S' \<and> distinct (map fst S') \<and> map_of S' ''exclude'' = Some x
           \<and> conforms True Strings x"
    by (rule conforms_field [OF cs [unfolded globs_shape_def]]) simp_all
  then obtain x where Sx: "map_of S ''exclude'' = Some x" and cx: "conforms True Strings x"
    using S by auto
  from conforms_strings [OF ci] obtain xs where i: "i = Arr (map Str xs)" by blast
  from conforms_strings [OF cx] obtain ys where x: "x = Arr (map Str ys)" by blast
  obtain gs where gs: "mergeWith [] (Obj G) (Obj G) concat_customizer = Some gs"
    using mergeWith_total by blast
  from mergeWith_nested_key [OF dG dG Gs [unfolded S] Gs [unfolded S] gs] obtain r' where
    r': "mergeWith [] (Obj S) (Obj S) concat_customizer = Some r'" and gr: "get gs ''scripts'' = Obj r'"
    by blast
  have inc: "get r' ''include'' = Arr (map Str xs @ map Str xs)"
    using dS Si [unfolded i] r' by (intro mergeWith_concat_key [of S S]) simp_all
  have exc: "get r' ''exclude'' = Arr (map Str ys @ map Str ys)"
    using dS Sx [unfolded x] r' by (intro mergeWith_concat_key [of S S]) simp_all
  let ?st' = "st(a := Obj (upd ''global'' (Obj gs) F))"
  have run: "merge_global_sources st config b = Inr (?st', b)"
    using gs Fg b
    by (simp add: merge_global_sources_def tb tc F get_prop_def bindF_def get_def G
        assign_slot_def set_prop_def)
  have before: "at (st a) [''global'', ''scripts'', ''include''] = Arr (map Str xs)"
    "at (st a) [''global'', ''scripts'', ''exclude''] = Arr (map Str ys)"
    using Fg Gs Si Sx by (simp_all add: F G S i x at_def get_def)
  have after: "at (?st' a) [''global'', ''scripts'', ''include''] = Arr (map Str xs @ map Str xs)"
    "at (?st' a) [''global'', ''scripts'', ''exclude''] = Arr (map Str ys @ map Str ys)"
    using gr inc exc by (simp_all add: at_def get_upd)
  show ?thesis
    using run before after
    by (intro exI [of _ "map Str xs"] exI [of _ "map Str ys"] exI [of _ ?st']) (simp add: tb tc)
qed

section \<open>The merged configuration, the defaults and the shared sources\<close>

text \<open>
  C5 as stated fails: a field present in the user configuration does not always
  overwrite the default. With \<open>{"mocks":{"include":[]}}\<close>, a valid partial
  configuration, the merged \<open>mocks.include\<close> still holds the default pattern.
\<close>

theorem merge_arrays_counterexample:
  "conforms False config_shape user_empty_mocks
   \<and> at user_empty_mocks [''mocks'', ''include''] = Arr []
   \<and> at (merged_config user_empty_mocks) [''mocks'', ''include'']
       = Arr [Str ''__mocks__/**/*.mock.script'']"
  by (simp add: user_empty_mocks_def merged_config_def shape_defs default_defs at_def get_def
      lodash_merge_def source_fields_def tget_def resolve_def in_place_def isObject_def isArray_def
      apply_customizer_def snapshot_def)

text \<open>
  C5, amended. For every valid partial user configuration the merge onto the defaults
  succeeds and yields a complete configuration in which nothing is \<open>undefined\<close>; a
  scalar field is the user's value where the user gives one and the default otherwise;
  an array field the user does not give keeps the default, and an array field the user
  gives is merged index by index: the user's elements, then the default's elements at
  the positions beyond the user's length.
\<close>

theorem merge_onto_defaults:
  "conforms False config_shape u \<longrightarrow>
     (\<exists>st. lodash_merge initial_store defaultConfig u = Inr (st, defaultConfig)
        \<and> conforms True config_shape (Obj (snapshot st defaultConfig))
        \<and> defined_everywhere (Obj (snapshot st defaultConfig))
        \<and> (\<forall>p l. shape_at config_shape p = Some (Leaf l) \<or> shape_at config_shape p = Some (OptionalLeaf l) \<longrightarrow>
              at (Obj (snapshot st defaultConfig)) p
                = (if at u p = Undef then at (Obj (snapshot initial_store defaultConfig)) p else at u p))
        \<and> (\<forall>p. shape_at config_shape p = Some Strings \<and> at u p = Undef \<longrightarrow>
              at (Obj (snapshot st defaultConfig)) p = at (Obj (snapshot initial_store defaultConfig)) p)
        \<and> (\<forall>p us ds. shape_at config_shape p = Some Strings \<and> at u p = Arr us
                  \<and> at (Obj (snapshot initial_store defaultConfig)) p = Arr ds \<longrightarrow>
              at (Obj (snapshot st defaultConfig)) p = Arr (us @ drop (length us) ds)))"
proof
  assume c: "conforms False config_shape u"
  from merge_defaults_core [OF c] obtain st where
    m: "lodash_merge initial_store defaultConfig u = Inr (st, defaultConfig)"
    and r: "merge_val None (Obj (snapshot initial_store defaultConfig)) u = Some (Obj (snapshot st defaultConfig))"
    and cr: "conforms True config_shape (Obj (snapshot st defaultConfig))"
    by blast
  let ?d = "Obj (snapshot initial_store defaultConfig)"
  let ?r = "Obj (snapshot st defaultConfig)"
  have at_r: "at ?r p = overlay (at ?d p) (at u p)"
    if "shape_at config_shape p = Some t'" "\<not> is_record t'" for p t'
    using merge_at [OF default_conforms c that] r by (simp del: merge_val.simps)
  have leaves: "at ?r p = (if at u p = Undef then at ?d p else at u p)"
    if "shape_at config_shape p = Some (Leaf l) \<or> shape_at config_shape p = Some (OptionalLeaf l)" for p l
  proof -
    from that obtain t' where t': "shape_at config_shape p = Some t'" "t' = Leaf l \<or> t' = OptionalLeaf l"
      by blast
    then have "\<not> is_record t'" by auto
    from at_r [OF t'(1) this] leaf_at_overlay [OF c t'] show ?thesis by simp
  qed
  have absent: "at ?r p = at ?d p" if "shape_at config_shape p = Some Strings \<and> at u p = Undef" for p
    using at_r [of p Strings] that by (simp add: overlay_def)
  have arrays: "at ?r p = Arr (us @ drop (length us) ds)"
    if "shape_at config_shape p = Some Strings \<and> at u p = Arr us \<and> at ?d p = Arr ds" for p us ds
    using at_r [of p Strings] that by (simp add: overlay_def)
  have "defined_everywhere ?r"
    using cr by (rule conforms_defined)
  with m cr leaves absent arrays show "\<exists>st. lodash_merge initial_store defaultConfig u = Inr (st, defaultConfig)
        \<and> conforms True config_shape (Obj (snapshot st defaultConfig))
        \<and> defined_everywhere (Obj (snapshot st defaultConfig))
        \<and> (\<forall>p l. shape_at config_shape p = Some (Leaf l) \<or> shape_at config_shape p = Some (OptionalLeaf l) \<longrightarrow>
              at (Obj (snapshot st defaultConfig)) p
                = (if at u p = Undef then at (Obj (snapshot initial_store defaultConfig)) p else at u p))
        \<and> (\<forall>p. shape_at config_shape p = Some Strings \<and> at u p = Undef \<longrightarrow>
              at (Obj (snapshot st defaultConfig)) p = at (Obj (snapshot initial_store defaultConfig)) p)
        \<and> (\<forall>p us ds. shape_at config_shape p = Some Strings \<and> at u p = Arr us
                  \<and> at (Obj (snapshot initial_store defaultConfig)) p = Arr ds \<longrightarrow>
              at (Obj (snapshot st defaultConfig)) p = Arr (us @ drop (length us) ds))"
    by (intro exI [of _ st]) (simp del: conforms.simps defined_everywhere.simps)
qed

theorem merge_onto_defaults_witness:
  "conforms False config_shape user_mixed
   \<and> (\<exists>st. lodash_merge initial_store defaultConfig user_mixed = Inr (st, defaultConfig)
        \<and> defined_everywhere (Obj (snapshot st defaultConfig))
        \<and> at (Obj (snapshot st defaultConfig)) [''controller'', ''ports'', ''primary''] = Num 40001
        \<and> at (Obj (snapshot st defaultConfig)) [''controller'', ''host''] = Str ''localhost''
        \<and> at (Obj (snapshot st defaultConfig)) [''mocks'', ''exclude''] = Arr []
        \<and> at (Obj (snapshot st defaultConfig)) [''mocks'', ''include'']
            = Arr [Str ''a.mock.script'', Str ''b.mock.script''])"
proof -
  have c: "conforms False config_shape user_mixed"
    by (simp add: user_mixed_def shape_defs is_Str_def)
  have shapes: "shape_at config_shape [''controller'', ''ports'', ''primary''] = Some (Leaf LNumber)"
    "shape_at config_shape [''controller'', ''host''] = Some (Leaf LString)"
    "shape_at config_shape [''mocks'', ''exclude''] = Some Strings"
    "shape_at config_shape [''mocks'', ''include''] = Some Strings"
    by (simp_all add: shape_defs)
  have user: "at user_mixed [''controller'', ''ports'', ''primary''] = Num 40001"
    "at user_mixed [''controller'', ''host''] = Undef"
    "at user_mixed [''mocks'', ''exclude''] = Undef"
    "at user_mixed [''mocks'', ''include''] = Arr [Str ''a.mock.script'', Str ''b.mock.script'']"
    by (simp_all add: user_mixed_def at_def get_def)
  have dflt: "at (Obj (snapshot initial_store defaultConfig)) [''controller'', ''host''] = Str ''localhost''"
    "at (Obj (snapshot initial_store defaultConfig)) [''mocks'', ''exclude''] = Arr []"
    "at (Obj (snapshot initial_store defaultConfig)) [''mocks'', ''include'']
       = Arr [Str ''__mocks__/**/*.mock.script'']"
    by (simp_all add: default_defs snapshot_def resolve_def at_def get_def)
  from merge_onto_defaults [of user_mixed] c obtain st where
    m: "lodash_merge initial_store defaultConfig user_mixed = Inr (st, defaultConfig)"
    and d: "defined_everywhere (Obj (snapshot st defaultConfig))"
    and leaves: "\<And>p l. shape_at config_shape p = Some (Leaf l) \<or> shape_at config_shape p = Some (OptionalLeaf l) \<Longrightarrow>
              at (Obj (snapshot st defaultConfig)) p
                = (if at user_mixed p = Undef then at (Obj (snapshot initial_store defaultConfig)) p
                   else at user_mixed p)"
    and absent: "\<And>p. shape_at config_shape p = Some Strings \<and> at user_mixed p = Undef \<Longrightarrow>
              at (Obj (snapshot st defaultConfig)) p = at (Obj (snapshot initial_store defaultConfig)) p"
    and arrays: "\<And>p us ds. shape_at config_shape p = Some Strings \<and> at user_mixed p = Arr us
                  \<and> at (Obj (snapshot initial_store defaultConfig)) p = Arr ds \<Longrightarrow>
              at (Obj (snapshot st defaultConfig)) p = Arr (us @ drop (length us) ds)"
    by blast
  have "at (Obj (snapshot st defaultConfig)) [''controller'', ''ports'', ''primary''] = Num 40001"
    using leaves [of "[''controller'', ''ports'', ''primary'']" LNumber] shapes user by simp
  moreover have "at (Obj (snapshot st defaultConfig)) [''controller'', ''host''] = Str ''localhost''"
    using leaves [of "[''controller'', ''host'']" LString] shapes user dflt by simp
  moreover have "at (Obj (snapshot st defaultConfig)) [''mocks'', ''exclude''] = Arr []"
    using absent [of "[''mocks'', ''exclude'']"] shapes user dflt by simp
  moreover have "at (Obj (snapshot st defaultConfig)) [''mocks'', ''include'']
            = Arr [Str ''a.mock.script'', Str ''b.mock.script'']"
    using arrays [of "[''mocks'', ''include'']" "[Str ''a.mock.script'', Str ''b.mock.script'']"
        "[Str ''__mocks__/**/*.mock.script'']"] shapes user dflt by simp
  ultimately show ?thesis
    using c m d by blast
qed



text \<open>
  C3. Without a bundle file, for every valid partial user configuration, the
  \<open>sources\<close> of the synthesized bundler configuration is the reference held by
  \<open>config.sources\<close>; the source-set merge therefore merges the global source set with
  itself, and the final \<open>include\<close> and \<open>exclude\<close> of \<open>bundlerConfig.sources.global\<close>
  hold every element of the merged configuration's arrays twice.
\<close>

theorem no_bundle_sources_doubled:
  "JSON_parse e contents = Inr u \<and> conforms False config_shape u \<longrightarrow>
     (\<exists>st config b. configure e contents None = Inr (st, config, b)
        \<and> read_slot b ''sources'' = read_slot config ''sources''
        \<and> read_slot config ''sources'' = Shared sources_addr
        \<and> (\<exists>xs ys st'.
              at (tget st config ''sources'') [''global'', ''scripts'', ''include''] = Arr xs
            \<and> at (tget st config ''sources'') [''global'', ''scripts'', ''exclude''] = Arr ys
            \<and> merge_global_sources st config b = Inr (st', b)
            \<and> at (tget st' b ''sources'') [''global'', ''scripts'', ''include''] = Arr (xs @ xs)
            \<and> at (tget st' b ''sources'') [''global'', ''scripts'', ''exclude''] = Arr (ys @ ys)
            \<and> tget st' config ''sources'' = tget st' b ''sources''))"
proof
  assume h: "JSON_parse e contents = Inr u \<and> conforms False config_shape u"
  then have c: "conforms False config_shape u" by blast
  from merge_defaults_core [OF c] obtain st where
    m: "lodash_merge initial_store defaultConfig u = Inr (st, defaultConfig)"
    and cr: "conforms True config_shape (Obj (snapshot st defaultConfig))"
    by blast
  let ?b = "synthesized_bundlerConfig defaultConfig"
  have slot_c: "read_slot defaultConfig ''sources'' = Shared sources_addr"
    by (simp add: read_slot_def defaultConfig_def)
  have slot_b: "read_slot ?b ''sources'' = Shared sources_addr"
    by (simp add: synthesized_bundlerConfig_def read_slot_def defaultConfig_def)
  have derive: "derive_bundlerConfig (JSON_parse e) initial_store defaultConfig None = Inr ?b"
    by (simp add: derive_bundlerConfig_def ensure_sources_def synthesized_bundlerConfig_def
        read_slot_def tget_def resolve_def default_defs)
  have conf: "configure e contents None = Inr (st, defaultConfig, ?b)"
    using h m derive by (simp add: configure_def bindF_def lift_error_def)
  have "\<exists>fs x. Obj (snapshot st defaultConfig) = Obj fs \<and> distinct (map fst fs)
           \<and> map_of fs ''sources'' = Some x \<and> conforms True sources_shape x"
    by (rule conforms_field [OF cr [unfolded config_shape_def]])
      (simp_all add: config_fields_def sources_shape_def)
  then obtain x where "map_of (snapshot st defaultConfig) ''sources'' = Some x"
    "conforms True sources_shape x"
    by auto
  then have "get (snapshot st defaultConfig) ''sources'' = x"
    by (simp add: get_def)
  then have "st sources_addr = x"
    by (simp add: get_snapshot) (simp add: tget_def defaultConfig_def resolve_def)
  then have src: "conforms True sources_shape (st sources_addr)"
    using \<open>conforms True sources_shape x\<close> by simp
  from doubled_sources [of st sources_addr ?b defaultConfig, OF src slot_b slot_c] conf slot_b slot_c
  show "\<exists>st config b. configure e contents None = Inr (st, config, b)
        \<and> read_slot b ''sources'' = read_slot config ''sources''
        \<and> read_slot config ''sources'' = Shared sources_addr
        \<and> (\<exists>xs ys st'.
              at (tget st config ''sources'') [''global'', ''scripts'', ''include''] = Arr xs
            \<and> at (tget st config ''sources'') [''global'', ''scripts'', ''exclude''] = Arr ys
            \<and> merge_global_sources st config b = Inr (st', b)
            \<and> at (tget st' b ''sources'') [''global'', ''scripts'', ''include''] = Arr (xs @ xs)
            \<and> at (tget st' b ''sources'') [''global'', ''scripts'', ''exclude''] = Arr (ys @ ys)
            \<and> tget st' config ''sources'' = tget st' b ''sources'')"
    by (intro exI [of _ st] exI [of _ defaultConfig] exI [of _ ?b]) simp
qed

theorem no_bundle_sources_doubled_witness:
  "JSON_parse example_env config_text_sources = Inr (include_only ''a.script'')
   \<and> conforms False config_shape (include_only ''a.script'')
   \<and> (\<exists>st config b st'.
         configure example_env config_text_sources None = Inr (st, config, b)
       \<and> read_slot b ''sources'' = read_slot config ''sources''
       \<and> at (tget st config ''sources'') [''global'', ''scripts'', ''include''] = Arr [Str ''a.script'']
       \<and> merge_global_sources st config b = Inr (st', b)
       \<and> at (tget st' b ''sources'') [''global'', ''scripts'', ''include'']
           = Arr [Str ''a.script'', Str ''a.script''])"
proof -
  have p: "JSON_parse example_env config_text_sources = Inr (include_only ''a.script'')"
    by (simp add: example_defs)
  have c: "conforms False config_shape (include_only ''a.script'')"
    by (simp add: include_only_def shape_defs is_Str_def)
  from no_bundle_sources_doubled [of example_env config_text_sources "include_only ''a.script''"] p c
  obtain st config b xs ys st' where
    conf: "configure example_env config_text_sources None = Inr (st, config, b)"
    and shared: "read_slot b ''sources'' = read_slot config ''sources''"
    and before: "at (tget st config ''sources'') [''global'', ''scripts'', ''include''] = Arr xs"
    and run: "merge_global_sources st config b = Inr (st', b)"
    and after: "at (tget st' b ''sources'') [''global'', ''scripts'', ''include''] = Arr (xs @ xs)"
    by blast
  have "\<forall>st config b. configure example_env config_text_sources None = Inr (st, config, b) \<longrightarrow>
          at (tget st config ''sources'') [''global'', ''scripts'', ''include''] = Arr [Str ''a.script'']"
    by (simp add: example_defs driver_defs at_def)
  with conf before have "xs = [Str ''a.script'']"
    by auto
  with conf shared before run after p c show ?thesis
    by auto
qed

end
